theory Spec2Isabelle
  imports Main "HOL-Library.Word" "HOL-Library.Multiset"
    "HOL-Library.Char_ord" "HOL-Library.List_Lexorder"
begin

unbundle bit_operations_syntax

section \<open>An iterative DNS resolver (package nslookup, main.go)\<close>

text \<open>
  The resolver walks the delegation chain from the root servers: it packs one query,
  and at every hop races a TCP dial to all candidate servers, exchanges the
  length-prefixed query over the winning connection and either returns the answers or
  follows the NS records of the authority section. The model below follows main.go
  function by function. The DNS codec (package dnsmessage), the network and the
  goroutine scheduler are outside the file: they are parameters of the model.
\<close>

subsection \<open>Bytes, errors, connections\<close>

type_synonym byte = "8 word"
type_synonym uint16 = "16 word"
type_synonym uint32 = "32 word"

text \<open>
  Go errors as values. \<open>ErrNotFound\<close> and \<open>ErrMaxDepth\<close> are the two package
  variables; \<open>ErrTargetAddrListNil\<close> is the \<open>errors.New\<close> value of \<open>gDialRemote\<close>
  ("LookupContext.DialRemote targetAddrList is nil"); \<open>EOF\<close> and \<open>ErrUnexpectedEOF\<close>
  are those of package io; \<open>NetError\<close> and \<open>CodecError\<close> stand for what the network
  and dnsmessage report. A run-time panic ends the call as well, and every caller up
  to the top with it; it is kept apart as \<open>PanicSliceBounds\<close> (slice bounds out of
  range) and \<open>PanicIndex\<close> (index out of range), values that the network and the
  codec never report.
\<close>

datatype error =
    ErrNotFound
  | ErrMaxDepth
  | ErrTargetAddrListNil
  | EOF
  | ErrUnexpectedEOF
  | NetError string
  | CodecError string
  | PanicSliceBounds
  | PanicIndex

fun is_panic :: "error \<Rightarrow> bool" where
  "is_panic PanicSliceBounds = True"
| "is_panic PanicIndex = True"
| "is_panic err = False"

text \<open>
  A \<open>net.Conn\<close> as the code uses it: \<open>Write\<close> of one buffer either fails or not,
  and the peer then delivers \<open>incoming\<close> (which may depend on what was written)
  before reads end with \<open>read_end\<close>.
\<close>

record Conn =
  remote_addr :: string
  write_result :: "byte list \<Rightarrow> error option"
  incoming :: "byte list \<Rightarrow> byte list"
  read_end :: error

subsection \<open>Library functions the code calls\<close>

text \<open>strings.HasSuffix and strings.TrimSuffix.\<close>

definition HasSuffix :: "string \<Rightarrow> string \<Rightarrow> bool" where
  "HasSuffix s suffix =
     (length s \<ge> length suffix \<and> drop (length s - length suffix) s = suffix)"

definition TrimSuffix :: "string \<Rightarrow> string \<Rightarrow> string" where
  "TrimSuffix s suffix =
     (if HasSuffix s suffix then take (length s - length suffix) s else s)"

text \<open>Decimal digits of a number, as \<open>net.IP.String\<close> prints each byte of an address.\<close>

definition digit_char :: "nat \<Rightarrow> char" where
  "digit_char d = char_of (48 + d)"

function uitoa :: "nat \<Rightarrow> string" where
  "uitoa n = (if n < 10 then [digit_char n] else uitoa (n div 10) @ [digit_char (n mod 10)])"
  by pat_completeness auto
termination
  by (relation "measure (\<lambda>n. n)") auto

definition IPv4_String :: "byte \<Rightarrow> byte \<Rightarrow> byte \<Rightarrow> byte \<Rightarrow> string" where
  "IPv4_String a b c d =
     uitoa (unat a) @ ''.'' @ uitoa (unat b) @ ''.'' @ uitoa (unat c) @ ''.'' @ uitoa (unat d)"

text \<open>
  binary.BigEndian.PutUint16 and Uint16 on the first two bytes of a buffer, and the
  builtin \<open>copy(dst[off:], src)\<close>, which copies as many bytes as fit.
\<close>

definition PutUint16 :: "byte list \<Rightarrow> uint16 \<Rightarrow> byte list" where
  "PutUint16 b v = b[0 := ucast (drop_bit 8 v), 1 := ucast v]"

definition Uint16 :: "byte list \<Rightarrow> uint16" where
  "Uint16 b = (ucast (b ! 1)) OR (push_bit 8 (ucast (b ! 0)))"

definition copy_at :: "byte list \<Rightarrow> nat \<Rightarrow> byte list \<Rightarrow> byte list" where
  "copy_at dst off src =
     (let n = min (length dst - off) (length src)
      in take off dst @ take n src @ drop (off + n) dst)"

text \<open>
  io.ReadFull on a stream that holds \<open>stream\<close> and then ends with the error \<open>e\<close>:
  it fills \<open>k\<close> bytes or fails; a stream that ends by EOF after some but not all of
  the bytes gives ErrUnexpectedEOF. On success the bytes read and the rest of the
  stream are returned.
\<close>

definition ReadFull :: "byte list \<Rightarrow> error \<Rightarrow> nat \<Rightarrow> error + (byte list \<times> byte list)" where
  "ReadFull stream e k =
     (if k \<le> length stream then Inr (take k stream, drop k stream)
      else if 0 < length stream \<and> e = EOF then Inl ErrUnexpectedEOF
      else Inl e)"

subsection \<open>The message exchange: exchangePacket\<close>

definition MaxUint16 :: nat where
  "MaxUint16 = 65535"

text \<open>The buffer after lines 253 to 255: allocated, length prefix put, payload copied.\<close>

definition send_buffer :: "byte list \<Rightarrow> byte list" where
  "send_buffer send =
     (let temp = replicate (2 + MaxUint16) 0;
          temp = PutUint16 temp (of_nat (length send));
          temp = copy_at temp 2 send
      in temp)"

text \<open>
  The result is the list of buffers handed to \<open>conn.Write\<close> and the value returned.
  \<open>temp[:2+len(send)]\<close> panics when the bound exceeds the capacity of \<open>temp\<close>.
  The reply length \<open>n\<close> is a uint16, so the bound \<open>2+n\<close> of \<open>temp[2:2+n]\<close> is
  computed in uint16 and wraps around; the slice expression panics when the bound is
  below 2 (or above the capacity), before anything of the reply body is read.
\<close>

definition exchangePacket :: "Conn \<Rightarrow> byte list \<Rightarrow> byte list list \<times> (error + byte list)" where
  "exchangePacket conn send =
     (let temp = send_buffer send
      in if 2 + length send > length temp then ([], Inl PanicSliceBounds)
         else
          (let out = take (2 + length send) temp
           in (case write_result conn out of
                 Some err \<Rightarrow> ([out], Inl err)
               | None \<Rightarrow>
                  (case ReadFull (incoming conn out) (read_end conn) 2 of
                     Inl err \<Rightarrow> ([out], Inl err)
                   | Inr (hdr, rest) \<Rightarrow>
                      (let temp = copy_at temp 0 hdr;
                           n = Uint16 temp;
                           high = unat (2 + n)
                       in if high < 2 \<or> length temp < high
                          then ([out], Inl PanicSliceBounds)
                          else
                           (case ReadFull rest (read_end conn) (high - 2) of
                              Inl err \<Rightarrow> ([out], Inl err)
                            | Inr (body, rest') \<Rightarrow>
                               (let temp = copy_at temp 2 body
                                in ([out], Inr (take (high - 2) (drop 2 temp))))))))))"

subsection \<open>The connection broker: gDialRemote\<close>

text \<open>
  Every address gets a goroutine that dials and then, holding the lock, records its
  outcome. The state the goroutines share is \<open>conn\<close> and \<open>errList\<close>; \<open>closed\<close>
  lists the connections a later winner closed, \<open>cancelled\<close> says whether
  \<open>cancelFn\<close> was called, \<open>spawned\<close> counts the goroutines started.
\<close>

record race =
  conn :: "Conn option"
  errList :: "error list"
  closed :: "Conn list"
  cancelled :: bool
  spawned :: nat

definition race_init :: race where
  "race_init = \<lparr>conn = None, errList = [], closed = [], cancelled = False, spawned = 0\<rparr>"

text \<open>The critical section of one goroutine (lines 229 to 241), given what its dial returned.\<close>

definition dial_task :: "error + Conn \<Rightarrow> race \<Rightarrow> race" where
  "dial_task r st =
     (case r of
        Inl err0 \<Rightarrow> st\<lparr>errList := errList st @ [err0]\<rparr>
      | Inr conn0 \<Rightarrow>
         (case conn st of
            Some c \<Rightarrow> st\<lparr>closed := closed st @ [conn0]\<rparr>
          | None \<Rightarrow> st\<lparr>conn := Some conn0, cancelled := True\<rparr>))"

text \<open>
  The scheduler: the lock is taken by the pending goroutines in some order. A list of
  picks chooses, at each step, which of the goroutines still pending enters its
  critical section next (pick modulo the number pending; the first when the picks run
  out). \<open>wg.Wait\<close> returns when none is pending, so every goroutine runs once.
\<close>

function run_tasks :: "nat list \<Rightarrow> (error + Conn) list \<Rightarrow> race \<Rightarrow> race" where
  "run_tasks picks [] st = st"
| "run_tasks picks (t # ts) st =
     (let k = (case picks of [] \<Rightarrow> 0 | p # _ \<Rightarrow> p mod length (t # ts))
      in run_tasks (tl picks) (take k (t # ts) @ drop (Suc k) (t # ts))
           (dial_task ((t # ts) ! k) st))"
  by pat_completeness auto
termination
  by (relation "measure (\<lambda>(picks, pending, st). length pending)")
     (auto split: list.splits)

text \<open>
  \<open>dial i addr\<close> is what \<open>DialContext\<close> returns in the goroutine started for the
  \<open>i\<close>-th address. The race state is returned beside the result.
\<close>

definition spawn_all :: "(nat \<Rightarrow> string \<Rightarrow> error + Conn) \<Rightarrow> string list \<Rightarrow> (error + Conn) list" where
  "spawn_all dial targetAddrList =
     map (\<lambda>i. dial i (targetAddrList ! i)) [0..<length targetAddrList]"

definition gDialRemote_race ::
  "(nat \<Rightarrow> string \<Rightarrow> error + Conn) \<Rightarrow> nat list \<Rightarrow> string list \<Rightarrow> (error + Conn) \<times> race" where
  "gDialRemote_race dial picks targetAddrList =
     (if length targetAddrList = 0 then (Inl ErrTargetAddrListNil, race_init)
      else
       (let tasks = spawn_all dial targetAddrList;
            st = run_tasks picks tasks (race_init\<lparr>spawned := length tasks\<rparr>)
        in (case conn st of
              None \<Rightarrow>
               (case errList st of
                  [] \<Rightarrow> (Inl PanicIndex, st)
                | e # _ \<Rightarrow> (Inl e, st))
            | Some c \<Rightarrow> (Inr c, st))))"

definition gDialRemote ::
  "(nat \<Rightarrow> string \<Rightarrow> error + Conn) \<Rightarrow> nat list \<Rightarrow> string list \<Rightarrow> error + Conn" where
  "gDialRemote dial picks targetAddrList = fst (gDialRemote_race dial picks targetAddrList)"

subsection \<open>The data of package dnsmessage that the code reads\<close>

datatype Type = TypeA | TypeNS | TypeCNAME | TypeSOA | TypeMX | TypeTXT

datatype Class = ClassINET

text \<open>
  A resource body is an interface value; the code tells its dynamic type by type
  assertion. Only the fields the code reads are kept; \<open>OtherResource\<close> stands for
  every other body (a nil body too: each assertion fails on it).
\<close>

datatype ResourceBody =
    AResource byte byte byte byte
  | NSResource string
  | SOAResource string
  | TXTResource "string list"
  | CNAMEResource string
  | MXResource uint16 string
  | OtherResource

record Resource =
  ResourceName :: string
  Body :: ResourceBody

record Header =
  ID :: uint16
  Response :: bool
  OpCode :: uint16
  Authoritative :: bool
  Truncated :: bool
  RecursionDesired :: bool
  RecursionAvailable :: bool
  RCode :: uint16

record Question =
  Name :: string
  QType :: Type
  QClass :: Class

record Message =
  MsgHeader :: Header
  Questions :: "Question list"
  Answers :: "Resource list"
  Authorities :: "Resource list"
  Additionals :: "Resource list"

text \<open>net.MX.\<close>

record MX =
  Host :: string
  Pref :: uint16

subsection \<open>The world outside the file\<close>

text \<open>
  \<open>NewName\<close>, \<open>Pack\<close> and \<open>Unpack\<close> are dnsmessage's. Within one resolution a hop
  happens at most once per depth, so the network and the scheduler are given per
  depth: \<open>net_dial d i addr\<close> is the outcome of the \<open>i\<close>-th goroutine's dial at
  depth \<open>d\<close>, \<open>net_sched d\<close> the picks of the scheduler there.
\<close>

record env =
  NewName :: "string \<Rightarrow> error + string"
  Pack :: "Message \<Rightarrow> error + byte list"
  Unpack :: "byte list \<Rightarrow> error + Message"
  net_dial :: "nat \<Rightarrow> nat \<Rightarrow> string \<Rightarrow> error + Conn"
  net_sched :: "nat \<Rightarrow> nat list"

text \<open>What a resolution does to the outside, in order.\<close>

datatype event =
    PackCall Message
  | Dial nat "string list"
  | Exchange nat "byte list"
  | Close nat

subsection \<open>The resolution engine: lookupResourceListL1\<close>

definition gRootServers :: "string list" where
  "gRootServers =
     [''198.41.0.4:53'', ''192.228.79.201:53'', ''192.33.4.12:53'', ''128.8.10.90:53'',
      ''192.203.230.10:53'', ''192.5.5.241:53'', ''192.112.36.4:53'', ''128.63.2.53:53'',
      ''192.36.148.17:53'', ''192.58.128.30:53'', ''193.0.14.129:53'', ''199.7.83.42:53'',
      ''202.12.27.33:53'']"

text \<open>\<open>var gLookupId uint32\<close>: the zero value at start.\<close>

definition gLookupId_init :: uint32 where
  "gLookupId_init = 0"

text \<open>atomic.AddUint32: the new value is stored and returned.\<close>

definition atomic_AddUint32 :: "uint32 \<Rightarrow> uint32 \<Rightarrow> uint32 \<times> uint32" where
  "atomic_AddUint32 addr delta = (addr + delta, addr + delta)"

text \<open>The inner loop over the authority section (lines 200 to 206).\<close>

fun nsList_loop :: "Resource list \<Rightarrow> string list \<Rightarrow> string list" where
  "nsList_loop [] nsList = nsList"
| "nsList_loop (one # rest) nsList =
     (case Body one of
        NSResource ns \<Rightarrow> nsList_loop rest (nsList @ [TrimSuffix ns ''.'' @ '':53''])
      | _ \<Rightarrow> nsList_loop rest nsList)"

text \<open>
  The referral loop (lines 177 to 211), from \<open>depth\<close> on with the current
  \<open>serverList\<close>. It returns the result and the events of the hops it made. The
  connection is closed when exchangePacket returns, with or without an error; a panic
  in it leaves the function before the close.
\<close>

function lookup_loop ::
  "env \<Rightarrow> byte list \<Rightarrow> nat \<Rightarrow> string list \<Rightarrow> (error + Resource list) \<times> event list" where
  "lookup_loop E send depth serverList =
     (if depth > 10 then (Inl ErrMaxDepth, [])
      else
       (case gDialRemote (net_dial E depth) (net_sched E depth) serverList of
          Inl err \<Rightarrow> (Inl err, [Dial depth serverList])
        | Inr c \<Rightarrow>
           (case snd (exchangePacket c send) of
              Inl err \<Rightarrow>
               (Inl err, Dial depth serverList # Exchange depth send #
                           (if is_panic err then [] else [Close depth]))
            | Inr receive \<Rightarrow>
               (case Unpack E receive of
                  Inl err \<Rightarrow>
                   (Inl err, [Dial depth serverList, Exchange depth send, Close depth])
                | Inr receiveMsg \<Rightarrow>
                   if length (Answers receiveMsg) > 0
                   then (Inr (Answers receiveMsg),
                         [Dial depth serverList, Exchange depth send, Close depth])
                   else
                    (let nsList = nsList_loop (Authorities receiveMsg) []
                     in if nsList = []
                        then (Inl ErrNotFound,
                              [Dial depth serverList, Exchange depth send, Close depth])
                        else
                         (let (r, evs) = lookup_loop E send (depth + 1) nsList
                          in (r, [Dial depth serverList, Exchange depth send, Close depth]
                                   @ evs)))))))"
  by pat_completeness auto
termination
  by (relation "measure (\<lambda>(E, send, depth, serverList). 11 - depth)") auto

definition lookupResourceListL1 ::
  "env \<Rightarrow> uint32 \<Rightarrow> string \<Rightarrow> Type \<Rightarrow> (error + Resource list) \<times> uint32 \<times> event list" where
  "lookupResourceListL1 E gLookupId domain typeC =
     (let domain = (if \<not> HasSuffix domain ''.'' then domain @ ''.'' else domain)
      in (case NewName E domain of
            Inl err \<Rightarrow> (Inl err, gLookupId, [])
          | Inr name \<Rightarrow>
             (let (gLookupId, newId) = atomic_AddUint32 gLookupId 1;
                  msg = \<lparr>MsgHeader = \<lparr>ID = ucast newId, Response = False, OpCode = 0,
                                       Authoritative = False, Truncated = False,
                                       RecursionDesired = False, RecursionAvailable = False,
                                       RCode = 0\<rparr>,
                         Questions = [\<lparr>Name = name, QType = typeC, QClass = ClassINET\<rparr>],
                         Answers = [], Authorities = [], Additionals = []\<rparr>
              in (case Pack E msg of
                    Inl err \<Rightarrow> (Inl err, gLookupId, [PackCall msg])
                  | Inr send \<Rightarrow>
                     (let (r, evs) = lookup_loop E send 0 gRootServers
                      in (r, gLookupId, PackCall msg # evs))))))"

subsection \<open>The public lookups\<close>

text \<open>
  Each lookup runs the engine once and then walks the answers; the loops are the
  functions \<open>\<dots>_loop\<close>, with the slice being built as accumulator. The counter and
  the events of the engine are passed on.
\<close>

fun aResourceList_loop :: "Resource list \<Rightarrow> string list \<Rightarrow> string list" where
  "aResourceList_loop [] aResourceList = aResourceList"
| "aResourceList_loop (answer # rest) aResourceList =
     (case Body answer of
        AResource a0 a1 a2 a3 \<Rightarrow>
          aResourceList_loop rest (aResourceList @ [IPv4_String a0 a1 a2 a3])
      | _ \<Rightarrow> aResourceList_loop rest aResourceList)"

definition LookupA ::
  "env \<Rightarrow> uint32 \<Rightarrow> string \<Rightarrow> (error + string list) \<times> uint32 \<times> event list" where
  "LookupA E gLookupId domain =
     (case lookupResourceListL1 E gLookupId domain TypeA of
        (Inl err, g, evs) \<Rightarrow> (Inl err, g, evs)
      | (Inr answerList, g, evs) \<Rightarrow>
         (let aResourceList = aResourceList_loop answerList []
          in if length aResourceList = 0 then (Inl ErrNotFound, g, evs)
             else (Inr aResourceList, g, evs)))"

fun soaResourceList_loop :: "Resource list \<Rightarrow> string list \<Rightarrow> string list" where
  "soaResourceList_loop [] soaResourceList = soaResourceList"
| "soaResourceList_loop (answer # rest) soaResourceList =
     (case Body answer of
        SOAResource ns \<Rightarrow>
          soaResourceList_loop rest (soaResourceList @ [TrimSuffix ns ''.''])
      | _ \<Rightarrow> soaResourceList_loop rest soaResourceList)"

definition LookupSOA ::
  "env \<Rightarrow> uint32 \<Rightarrow> string \<Rightarrow> (error + string list) \<times> uint32 \<times> event list" where
  "LookupSOA E gLookupId domain =
     (case lookupResourceListL1 E gLookupId domain TypeSOA of
        (Inl err, g, evs) \<Rightarrow> (Inl err, g, evs)
      | (Inr answerList, g, evs) \<Rightarrow>
         (let soaResourceList = soaResourceList_loop answerList []
          in if length soaResourceList = 0 then (Inl ErrNotFound, g, evs)
             else (Inr soaResourceList, g, evs)))"

fun nsResourceList_loop :: "Resource list \<Rightarrow> string list \<Rightarrow> string list" where
  "nsResourceList_loop [] nsResourceList = nsResourceList"
| "nsResourceList_loop (answer # rest) nsResourceList =
     (case Body answer of
        NSResource ns \<Rightarrow>
          nsResourceList_loop rest (nsResourceList @ [TrimSuffix ns ''.''])
      | _ \<Rightarrow> nsResourceList_loop rest nsResourceList)"

definition LookupNS ::
  "env \<Rightarrow> uint32 \<Rightarrow> string \<Rightarrow> (error + string list) \<times> uint32 \<times> event list" where
  "LookupNS E gLookupId domain =
     (case lookupResourceListL1 E gLookupId domain TypeNS of
        (Inl err, g, evs) \<Rightarrow> (Inl err, g, evs)
      | (Inr answerList, g, evs) \<Rightarrow>
         (let nsResourceList = nsResourceList_loop answerList []
          in if length nsResourceList = 0 then (Inl ErrNotFound, g, evs)
             else (Inr nsResourceList, g, evs)))"

fun txtResourceList_loop :: "Resource list \<Rightarrow> string list \<Rightarrow> string list" where
  "txtResourceList_loop [] txtResourceList = txtResourceList"
| "txtResourceList_loop (answer # rest) txtResourceList =
     (case Body answer of
        TXTResource txt \<Rightarrow> txtResourceList_loop rest (txtResourceList @ txt)
      | _ \<Rightarrow> txtResourceList_loop rest txtResourceList)"

definition LookupTXT ::
  "env \<Rightarrow> uint32 \<Rightarrow> string \<Rightarrow> (error + string list) \<times> uint32 \<times> event list" where
  "LookupTXT E gLookupId domain =
     (case lookupResourceListL1 E gLookupId domain TypeTXT of
        (Inl err, g, evs) \<Rightarrow> (Inl err, g, evs)
      | (Inr answerList, g, evs) \<Rightarrow>
         (let txtResourceList = txtResourceList_loop answerList []
          in if length txtResourceList = 0 then (Inl ErrNotFound, g, evs)
             else (Inr txtResourceList, g, evs)))"

text \<open>The loop of LookupCNAME assigns \<open>cname\<close> and breaks at the first non-empty one.\<close>

fun cname_loop :: "Resource list \<Rightarrow> string \<Rightarrow> string" where
  "cname_loop [] cname = cname"
| "cname_loop (answer # rest) cname =
     (case Body answer of
        CNAMEResource c \<Rightarrow> (if c \<noteq> [] then c else cname_loop rest c)
      | _ \<Rightarrow> cname_loop rest cname)"

definition LookupCNAME ::
  "env \<Rightarrow> uint32 \<Rightarrow> string \<Rightarrow> (error + string) \<times> uint32 \<times> event list" where
  "LookupCNAME E gLookupId domain =
     (case lookupResourceListL1 E gLookupId domain TypeTXT of
        (Inl err, g, evs) \<Rightarrow> (Inl err, g, evs)
      | (Inr answerList, g, evs) \<Rightarrow>
         (let cname = cname_loop answerList []
          in if cname = [] then (Inl ErrNotFound, g, evs)
             else (Inr cname, g, evs)))"

fun mxResourceList_loop :: "Resource list \<Rightarrow> MX list \<Rightarrow> MX list" where
  "mxResourceList_loop [] mxResourceList = mxResourceList"
| "mxResourceList_loop (answer # rest) mxResourceList =
     (case Body answer of
        MXResource pref mx \<Rightarrow>
          mxResourceList_loop rest (mxResourceList @ [\<lparr>Host = mx, Pref = pref\<rparr>])
      | _ \<Rightarrow> mxResourceList_loop rest mxResourceList)"

text \<open>The less function handed to sort.Slice (lines 132 to 138), on the elements.\<close>

definition mx_less :: "MX \<Rightarrow> MX \<Rightarrow> bool" where
  "mx_less a b = (if Pref a \<noteq> Pref b then Pref a > Pref b else Host a < Host b)"

text \<open>
  sort.Slice is the library's: it permutes the slice into an order in which no element
  is less than an earlier one. It is modelled by insertion from the right; since two
  elements that \<open>mx_less\<close> does not order are equal, every such sort gives the same
  slice (lemma \<open>mx_sorted_unique\<close> below).
\<close>

fun insert_by :: "('a \<Rightarrow> 'a \<Rightarrow> bool) \<Rightarrow> 'a \<Rightarrow> 'a list \<Rightarrow> 'a list" where
  "insert_by lt x [] = [x]"
| "insert_by lt x (y # ys) =
     (if lt y x then y # insert_by lt x ys else x # y # ys)"

definition sort_Slice :: "('a \<Rightarrow> 'a \<Rightarrow> bool) \<Rightarrow> 'a list \<Rightarrow> 'a list" where
  "sort_Slice lt xs = foldr (insert_by lt) xs []"

definition LookupMX ::
  "env \<Rightarrow> uint32 \<Rightarrow> string \<Rightarrow> (error + MX list) \<times> uint32 \<times> event list" where
  "LookupMX E gLookupId domain =
     (case lookupResourceListL1 E gLookupId domain TypeMX of
        (Inl err, g, evs) \<Rightarrow> (Inl err, g, evs)
      | (Inr answerList, g, evs) \<Rightarrow>
         (let mxResourceList = mxResourceList_loop answerList []
          in if length mxResourceList = 0 then (Inl ErrNotFound, g, evs)
             else (Inr (sort_Slice mx_less mxResourceList), g, evs)))"

subsection \<open>Reading the events; one iteration of the loop\<close>

fun dials :: "event list \<Rightarrow> (nat \<times> string list) list" where
  "dials [] = []"
| "dials (Dial d sl # evs) = (d, sl) # dials evs"
| "dials (ev # evs) = dials evs"

fun exchanges :: "event list \<Rightarrow> (nat \<times> byte list) list" where
  "exchanges [] = []"
| "exchanges (Exchange d send # evs) = (d, send) # exchanges evs"
| "exchanges (ev # evs) = exchanges evs"

fun packed :: "event list \<Rightarrow> Message list" where
  "packed [] = []"
| "packed (PackCall m # evs) = m # packed evs"
| "packed (ev # evs) = packed evs"

text \<open>
  The body of the referral loop at one depth, as a value: the loop either returns
  (\<open>Done\<close>) or goes on with the next server list (\<open>Next\<close>). Lemma
  \<open>lookup_loop_hop\<close> below shows that \<open>lookup_loop\<close> is the iteration of \<open>hop\<close>.
\<close>

datatype hop_result = Done "error + Resource list" | Next "string list"

definition hop :: "env \<Rightarrow> byte list \<Rightarrow> nat \<Rightarrow> string list \<Rightarrow> hop_result \<times> event list" where
  "hop E send depth serverList =
     (case gDialRemote (net_dial E depth) (net_sched E depth) serverList of
        Inl err \<Rightarrow> (Done (Inl err), [Dial depth serverList])
      | Inr c \<Rightarrow>
         (case snd (exchangePacket c send) of
            Inl err \<Rightarrow>
             (Done (Inl err), Dial depth serverList # Exchange depth send #
                                (if is_panic err then [] else [Close depth]))
          | Inr receive \<Rightarrow>
             (case Unpack E receive of
                Inl err \<Rightarrow>
                 (Done (Inl err), [Dial depth serverList, Exchange depth send, Close depth])
              | Inr receiveMsg \<Rightarrow>
                 if length (Answers receiveMsg) > 0
                 then (Done (Inr (Answers receiveMsg)),
                       [Dial depth serverList, Exchange depth send, Close depth])
                 else if nsList_loop (Authorities receiveMsg) [] = []
                 then (Done (Inl ErrNotFound),
                       [Dial depth serverList, Exchange depth send, Close depth])
                 else (Next (nsList_loop (Authorities receiveMsg) []),
                       [Dial depth serverList, Exchange depth send, Close depth]))))"

text \<open>The query built at lines 150 to 171, as a function of what varies in it.\<close>

definition query_msg :: "uint16 \<Rightarrow> string \<Rightarrow> Type \<Rightarrow> Message" where
  "query_msg newId name typeC =
     \<lparr>MsgHeader = \<lparr>ID = newId, Response = False, OpCode = 0,
                    Authoritative = False, Truncated = False,
                    RecursionDesired = False, RecursionAvailable = False,
                    RCode = 0\<rparr>,
      Questions = [\<lparr>Name = name, QType = typeC, QClass = ClassINET\<rparr>],
      Answers = [], Authorities = [], Additionals = []\<rparr>"

subsection \<open>What the loops compute, said directly\<close>

text \<open>The targets of the NS records of a section, in order.\<close>

definition ns_targets :: "Resource list \<Rightarrow> string list" where
  "ns_targets rs = concat (map (\<lambda>r. case Body r of NSResource ns \<Rightarrow> [ns] | _ \<Rightarrow> []) rs)"

text \<open>The canonical names of the CNAME records of a section, in order.\<close>

definition cname_targets :: "Resource list \<Rightarrow> string list" where
  "cname_targets rs = concat (map (\<lambda>r. case Body r of CNAMEResource c \<Rightarrow> [c] | _ \<Rightarrow> []) rs)"

text \<open>One (host, preference) pair for each MX record of a section, in order.\<close>

definition mx_pairs :: "Resource list \<Rightarrow> MX list" where
  "mx_pairs rs =
     concat (map (\<lambda>r. case Body r of MXResource pref mx \<Rightarrow> [\<lparr>Host = mx, Pref = pref\<rparr>]
                                     | _ \<Rightarrow> []) rs)"

text \<open>Descending preference, equal preferences by ascending host.\<close>

definition mx_before :: "MX \<Rightarrow> MX \<Rightarrow> bool" where
  "mx_before a b = (Pref b < Pref a \<or> (Pref a = Pref b \<and> Host a \<le> Host b))"

text \<open>The two bytes of a length below \<open>2 ^ 16\<close>, most significant first.\<close>

definition be16 :: "nat \<Rightarrow> byte list" where
  "be16 n = [of_nat (n div 256), of_nat (n mod 256)]"

subsection \<open>A small world for concrete runs\<close>

text \<open>
  Every dial succeeds at once, the peer replies with an empty frame, and the codec
  decodes every reply to the given message.
\<close>

definition peer_conn :: Conn where
  "peer_conn = \<lparr>remote_addr = ''peer:53'', write_result = (\<lambda>out. None),
                 incoming = (\<lambda>out. [0, 0]), read_end = EOF\<rparr>"

definition reply_env :: "Message \<Rightarrow> env" where
  "reply_env m = \<lparr>NewName = (\<lambda>s. Inr s), Pack = (\<lambda>msg. Inr []), Unpack = (\<lambda>bs. Inr m),
                   net_dial = (\<lambda>d i addr. Inr peer_conn), net_sched = (\<lambda>d. [])\<rparr>"

definition reply_msg :: "Resource list \<Rightarrow> Resource list \<Rightarrow> Message" where
  "reply_msg ans auth =
     \<lparr>MsgHeader = \<lparr>ID = 1, Response = True, OpCode = 0, Authoritative = False,
                    Truncated = False, RecursionDesired = False, RecursionAvailable = False,
                    RCode = 0\<rparr>,
      Questions = [], Answers = ans, Authorities = auth, Additionals = []\<rparr>"

definition rr :: "ResourceBody \<Rightarrow> Resource" where
  "rr b = \<lparr>ResourceName = ''example.com.'', Body = b\<rparr>"

text \<open>A peer that sends back what it was sent.\<close>

definition echo_conn :: Conn where
  "echo_conn = \<lparr>remote_addr = ''echo:53'', write_result = (\<lambda>out. None),
                 incoming = (\<lambda>out. out), read_end = EOF\<rparr>"

declare lookup_loop.simps [simp del]
declare uitoa.simps [simp del]

section \<open>Properties\<close>

subsection \<open>The loop as iteration of one hop\<close>

lemma lookup_loop_hop:
  "lookup_loop E send depth sl =
     (if depth > 10 then (Inl ErrMaxDepth, [])
      else (case hop E send depth sl of
              (Done r, evs) \<Rightarrow> (r, evs)
            | (Next ns, evs) \<Rightarrow> (fst (lookup_loop E send (depth + 1) ns),
                                   evs @ snd (lookup_loop E send (depth + 1) ns))))"
  apply (subst lookup_loop.simps)
  apply (simp add: hop_def Let_def split: sum.split prod.split)
  done

lemma dials_append: "dials (xs @ ys) = dials xs @ dials ys"
  by (induction xs rule: dials.induct) simp_all

lemma exchanges_append: "exchanges (xs @ ys) = exchanges xs @ exchanges ys"
  by (induction xs rule: exchanges.induct) simp_all

lemma packed_append: "packed (xs @ ys) = packed xs @ packed ys"
  by (induction xs rule: packed.induct) simp_all

lemma hop_events:
  "snd (hop E send d sl) = [Dial d sl] \<or>
   snd (hop E send d sl) = [Dial d sl, Exchange d send] \<or>
   snd (hop E send d sl) = [Dial d sl, Exchange d send, Close d]"
  by (simp add: hop_def split: sum.split)

lemma hop_dials: "dials (snd (hop E send d sl)) = [(d, sl)]"
  using hop_events[of E send d sl] by auto

lemma hop_packed: "packed (snd (hop E send d sl)) = []"
  using hop_events[of E send d sl] by auto

lemma hop_exchanges:
  "exchanges (snd (hop E send d sl)) = [] \<or> exchanges (snd (hop E send d sl)) = [(d, send)]"
  using hop_events[of E send d sl] by auto

lemma loop_past: "10 < d \<Longrightarrow> lookup_loop E send d sl = (Inl ErrMaxDepth, [])"
  by (subst lookup_loop_hop) simp

lemma loop_Done:
  "d \<le> 10 \<Longrightarrow> hop E send d sl = (Done r, evs) \<Longrightarrow> lookup_loop E send d sl = (r, evs)"
  by (subst lookup_loop_hop) simp

lemma loop_Next:
  "d \<le> 10 \<Longrightarrow> hop E send d sl = (Next ns, evs) \<Longrightarrow>
   lookup_loop E send d sl =
     (fst (lookup_loop E send (Suc d) ns), evs @ snd (lookup_loop E send (Suc d) ns))"
  by (subst lookup_loop_hop) simp

subsection \<open>The length prefix and the exchange\<close>

lemma PutUint16_replicate:
  assumes "2 \<le> n"
  shows "PutUint16 (replicate n 0) v = ucast (drop_bit 8 v) # ucast v # replicate (n - 2) 0"
proof -
  from assms obtain m where n: "n = Suc (Suc m)"
    by (metis One_nat_def Suc_1 Suc_le_D Suc_le_mono)
  show ?thesis by (simp add: n PutUint16_def)
qed

lemma send_buffer_eq:
  "send_buffer send =
     ucast (drop_bit 8 (of_nat (length send) :: uint16)) # ucast (of_nat (length send) :: uint16)
       # take 65535 send @ replicate (65535 - length send) 0"
  by (simp add: send_buffer_def MaxUint16_def PutUint16_replicate copy_at_def min_def Let_def)

lemma length_send_buffer: "length (send_buffer send) = 65537"
  by (simp add: send_buffer_eq)

lemma hi_byte:
  assumes "n \<le> 65535"
  shows "(ucast (drop_bit 8 (of_nat n :: uint16)) :: byte) = of_nat (n div 256)"
proof -
  have "unat (drop_bit 8 (of_nat n :: uint16)) = n div 256"
    using assms by (simp add: unat_drop_bit_eq unat_of_nat drop_bit_eq_div unat_div)
  moreover have "n div 256 < 256" using assms by simp
  ultimately show ?thesis
    by (simp add: word_eq_iff_unsigned[where ?'a=nat] unsigned_ucast_eq unat_of_nat take_bit_eq_mod)
qed

lemma lo_byte: "(ucast (of_nat n :: uint16) :: byte) = of_nat (n mod 256)"
  apply (simp add: word_eq_iff_unsigned[where ?'a=nat] unsigned_ucast_eq unat_of_nat take_bit_eq_mod )
  apply (simp add: mod_mod_cancel)
  done

lemma Uint16_unat: "unat (Uint16 (h1 # h0 # xs)) = 256 * unat h1 + unat h0"
proof -
  let ?a = "ucast h0 :: uint16" and ?b = "push_bit 8 (ucast h1) :: uint16"
  have disj: "\<And>n. \<not> bit ?a n \<or> \<not> bit ?b n"
    by (auto simp: bit_simps dest: bit_imp_le_length)
  have "?a OR ?b = ?a + ?b"
    using disjunctive_add[of ?a ?b] disj by simp
  moreover have "unat ?a = unat h0"
    using unsigned_less[of h0, where ?'a=nat] by (simp add: unsigned_ucast_eq take_bit_eq_mod)
  moreover have "unat ?b = 256 * unat h1"
  proof -
    have "unat h1 < 256" using unsigned_less[of h1, where ?'a=nat] by simp
    then have "unat (ucast h1 :: uint16) = unat h1" "unat h1 * 256 < 65536"
      by (simp_all add: unsigned_ucast_eq take_bit_eq_mod)
    then show ?thesis
      by (simp add: push_bit_eq_mult unat_word_ariths)
  qed
  moreover have "unat h0 < 256" "unat h1 < 256"
    using unsigned_less[of h0, where ?'a=nat] unsigned_less[of h1, where ?'a=nat] by simp_all
  ultimately show ?thesis
    by (simp add: Uint16_def unat_word_ariths)
qed

lemma be16_decode: "n \<le> 65535 \<Longrightarrow> be16 n = [h1, h0] \<Longrightarrow> 256 * unat h1 + unat h0 = n"
  by (auto simp: be16_def unat_of_nat)

lemma frame_eq:
  assumes "length send \<le> 65535"
  shows "take (2 + length send) (send_buffer send) = be16 (length send) @ send"
  using assms by (simp add: send_buffer_eq be16_def hi_byte lo_byte)

lemma exchangePacket_too_long:
  "65535 < length send \<Longrightarrow> exchangePacket c send = ([], Inl PanicSliceBounds)"
  by (simp add: exchangePacket_def Let_def length_send_buffer)

lemma ReadFull_2:
  assumes "ReadFull s e 2 = Inr (hdr, rest)"
  shows "\<exists>h1 h0. hdr = [h1, h0] \<and> s = h1 # h0 # rest"
proof -
  from assms have len: "2 \<le> length s" and hdr: "hdr = take 2 s" and rest: "rest = drop 2 s"
    by (auto simp: ReadFull_def split: if_splits)
  from len obtain h1 h0 t where s: "s = h1 # h0 # t"
    by (cases s; cases "tl s") auto
  show ?thesis using hdr rest s by simp
qed

lemma ReadFull_length:
  "ReadFull s e k = Inr (body, rest) \<Longrightarrow> length body = k \<and> s = body @ rest"
  by (auto simp: ReadFull_def split: if_splits)

lemma unat_high:
  "unat (2 + n :: uint16) = (if unat n \<le> 65533 then 2 + unat n else unat n - 65534)"
proof -
  have lt: "unat n < 65536" using unsigned_less[of n, where ?'a=nat] by simp
  show ?thesis
  proof (cases "unat n \<le> 65533")
    case True
    then show ?thesis by (simp add: unat_word_ariths)
  next
    case False
    then have "unat n = 65534 \<or> unat n = 65535" using lt by arith
    then show ?thesis by (auto simp: unat_word_ariths)
  qed
qed

lemma read_reply:
  fixes X :: "error \<Rightarrow> 'r" and Y :: "byte list \<Rightarrow> 'r" and P :: 'r
  shows "(case ReadFull s e 2 of
       Inl err \<Rightarrow> X err
     | Inr (hdr, rest) \<Rightarrow>
        (let temp = copy_at (send_buffer send) 0 hdr;
             n = Uint16 temp;
             high = unat (2 + n)
         in if high < 2 \<or> length temp < high then P
            else
             (case ReadFull rest e (high - 2) of
                Inl err \<Rightarrow> X err
              | Inr (body, rest') \<Rightarrow>
                 (let temp = copy_at temp 2 body
                  in Y (take (high - 2) (drop 2 temp))))))
   = (case ReadFull s e 2 of
       Inl err \<Rightarrow> X err
     | Inr (hdr, rest) \<Rightarrow>
        (if 65533 < 256 * unat (hdr ! 0) + unat (hdr ! 1) then P
         else
          (case ReadFull rest e (256 * unat (hdr ! 0) + unat (hdr ! 1)) of
             Inl err \<Rightarrow> X err
           | Inr (body, rest') \<Rightarrow> Y body)))"
proof (cases "ReadFull s e 2")
  case (Inl err)
  then show ?thesis by simp
next
  case (Inr p)
  obtain hdr rest where p: "p = (hdr, rest)" by (cases p)
  from ReadFull_2[of s e hdr rest] Inr p obtain h1 h0 where hdr: "hdr = [h1, h0]" by auto
  let ?temp = "h1 # h0 # drop 2 (send_buffer send)"
  let ?n = "256 * unat h1 + unat h0"
  have buf: "copy_at (send_buffer send) 0 [h1, h0] = ?temp"
    by (simp add: copy_at_def length_send_buffer numeral_2_eq_2)
  have n: "unat (Uint16 ?temp) = ?n"
    by (rule Uint16_unat)
  have lt: "length ?temp = 65537" by (simp add: length_send_buffer)
  have "unat h0 < 256" "unat h1 < 256"
    using unsigned_less[of h0, where ?'a=nat] unsigned_less[of h1, where ?'a=nat] by simp_all
  then have le: "?n \<le> 65535" by simp
  show ?thesis
  proof (cases "65533 < ?n")
    case True
    then have "unat (2 + Uint16 ?temp) < 2" using le by (simp add: unat_high n)
    then show ?thesis using Inr p True by (simp add: buf Let_def hdr)
  next
    case False
    then have high: "unat (2 + Uint16 ?temp) = 2 + ?n" by (simp add: unat_high n)
    have ok: "\<not> (unat (2 + Uint16 ?temp) < 2 \<or> length ?temp < unat (2 + Uint16 ?temp))"
      using False unfolding high lt by simp
    show ?thesis
    proof (cases "ReadFull rest e ?n")
      case (Inl err)
      then show ?thesis using Inr p False ok by (simp add: buf high Let_def hdr)
    next
      case (Inr q)
      obtain body rest' where q: "q = (body, rest')" by (cases q)
      have len: "length body = ?n" using ReadFull_length[of rest e ?n body rest'] Inr q by simp
      have "take ?n (drop 2 (copy_at ?temp 2 body)) = body"
        using False len by (simp add: copy_at_def length_send_buffer min_def)
      then show ?thesis using Inr q \<open>ReadFull s e 2 = Inr p\<close> p False ok
        by (simp add: buf high Let_def hdr)
    qed
  qed
qed

lemma exchangePacket_unfold:
  assumes "length send \<le> 65535"
  shows "exchangePacket c send =
     (let out = be16 (length send) @ send
      in (case write_result c out of
            Some err \<Rightarrow> ([out], Inl err)
          | None \<Rightarrow>
             (case ReadFull (incoming c out) (read_end c) 2 of
                Inl err \<Rightarrow> ([out], Inl err)
              | Inr (hdr, rest) \<Rightarrow>
                 (if 65533 < 256 * unat (hdr ! 0) + unat (hdr ! 1)
                  then ([out], Inl PanicSliceBounds)
                  else
                   (case ReadFull rest (read_end c) (256 * unat (hdr ! 0) + unat (hdr ! 1)) of
                      Inl err \<Rightarrow> ([out], Inl err)
                    | Inr (body, rest') \<Rightarrow> ([out], Inr body))))))"
  using assms frame_eq[of send]
  apply (simp add: exchangePacket_def length_send_buffer Let_def split: option.split)
  apply (intro impI)
  apply (rule read_reply)
  done

lemma exchangePacket_written:
  "length send \<le> 65535 \<Longrightarrow> fst (exchangePacket c send) = [be16 (length send) @ send]"
  by (simp add: exchangePacket_unfold Let_def split: option.split sum.split prod.split)

lemma exchangePacket_reply:
  assumes "length send \<le> 65535"
    and "write_result c (be16 (length send) @ send) = None"
    and "incoming c (be16 (length send) @ send) = h1 # h0 # rest"
    and "256 * unat h1 + unat h0 \<le> 65533"
    and "256 * unat h1 + unat h0 \<le> length rest"
  shows "snd (exchangePacket c send) = Inr (take (256 * unat h1 + unat h0) rest)"
  using assms by (simp add: exchangePacket_unfold Let_def ReadFull_def)

lemma exchangePacket_reply_panic:
  assumes "length send \<le> 65535"
    and "write_result c (be16 (length send) @ send) = None"
    and "incoming c (be16 (length send) @ send) = h1 # h0 # rest"
    and "65533 < 256 * unat h1 + unat h0"
  shows "snd (exchangePacket c send) = Inl PanicSliceBounds"
  using assms by (simp add: exchangePacket_unfold Let_def ReadFull_def)

lemma exchangePacket_short_header:
  assumes "length send \<le> 65535"
    and "write_result c (be16 (length send) @ send) = None"
    and "length (incoming c (be16 (length send) @ send)) < 2"
  shows "\<exists>err. snd (exchangePacket c send) = Inl err"
  using assms by (simp add: exchangePacket_unfold Let_def ReadFull_def)

lemma exchangePacket_short_body:
  assumes "length send \<le> 65535"
    and "write_result c (be16 (length send) @ send) = None"
    and "incoming c (be16 (length send) @ send) = h1 # h0 # rest"
    and "length rest < 256 * unat h1 + unat h0"
  shows "\<exists>err. snd (exchangePacket c send) = Inl err"
  using assms by (simp add: exchangePacket_unfold Let_def ReadFull_def)

lemma exchangePacket_roundtrip:
  assumes "length send \<le> 65535" and "length p \<le> 65533"
    and "write_result c (be16 (length send) @ send) = None"
    and "incoming c (be16 (length send) @ send) = be16 (length p) @ p @ extra"
  shows "snd (exchangePacket c send) = Inr p"
proof -
  obtain h1 h0 where b: "be16 (length p) = [h1, h0]" by (simp add: be16_def)
  have "length p \<le> 65535" using assms(2) by simp
  then have n: "256 * unat h1 + unat h0 = length p" using be16_decode b by blast
  have "snd (exchangePacket c send) = Inr (take (256 * unat h1 + unat h0) (p @ extra))"
    by (rule exchangePacket_reply[OF assms(1) assms(3)]) (simp_all add: assms(4) b n assms(2))
  then show ?thesis by (simp add: n)
qed

lemma exchangePacket_roundtrip_panic:
  assumes "length send \<le> 65535" and "65533 < length p" and "length p \<le> 65535"
    and "write_result c (be16 (length send) @ send) = None"
    and "incoming c (be16 (length send) @ send) = be16 (length p) @ p @ extra"
  shows "snd (exchangePacket c send) = Inl PanicSliceBounds"
proof -
  obtain h1 h0 where b: "be16 (length p) = [h1, h0]" by (simp add: be16_def)
  have n: "256 * unat h1 + unat h0 = length p" using be16_decode[OF assms(3) b] .
  have inc: "incoming c (be16 (length send) @ send) = h1 # h0 # (p @ extra)"
    by (simp add: assms(5) b)
  have gt: "65533 < 256 * unat h1 + unat h0" using assms(2) n by simp
  show ?thesis
    by (rule exchangePacket_reply_panic[OF assms(1) assms(4) inc gt])
qed

text \<open>
  C6. A payload of at most 65535 bytes goes out in one write: the two bytes of its
  length, most significant first, and then the payload. The reply is read as two
  bytes of length and then the body; a stream that ends before the two bytes or
  before the announced length is a failure. For an announced reply length of at most
  65533 exactly that many bytes are read and returned, so a peer that answers with
  the frame of a payload \<open>p\<close> of at most 65533 bytes makes the exchange return
  \<open>p\<close>. For an announced length of 65534 or 65535 the bound \<open>2+n\<close> wraps around in
  uint16 and the exchange panics instead of returning the reply: the round trip fails
  for the two largest payload lengths.
\<close>

theorem exchangePacket_framing:
  assumes "length send \<le> 65535"
  shows "fst (exchangePacket c send) = [be16 (length send) @ send]
     \<and> (write_result c (be16 (length send) @ send) = None \<longrightarrow>
          (\<forall>h1 h0 rest. incoming c (be16 (length send) @ send) = h1 # h0 # rest \<longrightarrow>
              (256 * unat h1 + unat h0 \<le> 65533 \<longrightarrow>
               256 * unat h1 + unat h0 \<le> length rest \<longrightarrow>
                 snd (exchangePacket c send) = Inr (take (256 * unat h1 + unat h0) rest))
            \<and> (length rest < 256 * unat h1 + unat h0 \<longrightarrow>
                 (\<exists>err. snd (exchangePacket c send) = Inl err))
            \<and> (65533 < 256 * unat h1 + unat h0 \<longrightarrow>
                 snd (exchangePacket c send) = Inl PanicSliceBounds))
        \<and> (length (incoming c (be16 (length send) @ send)) < 2 \<longrightarrow>
              (\<exists>err. snd (exchangePacket c send) = Inl err))
        \<and> (\<forall>p extra. length p \<le> 65533 \<longrightarrow>
              incoming c (be16 (length send) @ send) = be16 (length p) @ p @ extra \<longrightarrow>
              snd (exchangePacket c send) = Inr p)
        \<and> (\<forall>p extra. 65533 < length p \<longrightarrow> length p \<le> 65535 \<longrightarrow>
              incoming c (be16 (length send) @ send) = be16 (length p) @ p @ extra \<longrightarrow>
              snd (exchangePacket c send) = Inl PanicSliceBounds))"
proof (intro conjI impI allI)
  show "fst (exchangePacket c send) = [be16 (length send) @ send]"
    using assms by (rule exchangePacket_written)
next
  fix h1 h0 rest
  assume "write_result c (be16 (length send) @ send) = None"
    and "incoming c (be16 (length send) @ send) = h1 # h0 # rest"
    and "256 * unat h1 + unat h0 \<le> 65533"
    and "256 * unat h1 + unat h0 \<le> length rest"
  then show "snd (exchangePacket c send) = Inr (take (256 * unat h1 + unat h0) rest)"
    using assms by (intro exchangePacket_reply)
next
  fix h1 h0 rest
  assume "write_result c (be16 (length send) @ send) = None"
    and "incoming c (be16 (length send) @ send) = h1 # h0 # rest"
    and "length rest < 256 * unat h1 + unat h0"
  then show "\<exists>err. snd (exchangePacket c send) = Inl err"
    using assms by (intro exchangePacket_short_body)
next
  fix h1 h0 rest
  assume "write_result c (be16 (length send) @ send) = None"
    and "incoming c (be16 (length send) @ send) = h1 # h0 # rest"
    and "65533 < 256 * unat h1 + unat h0"
  then show "snd (exchangePacket c send) = Inl PanicSliceBounds"
    using assms by (intro exchangePacket_reply_panic)
next
  assume "write_result c (be16 (length send) @ send) = None"
    and "length (incoming c (be16 (length send) @ send)) < 2"
  then show "\<exists>err. snd (exchangePacket c send) = Inl err"
    using assms by (intro exchangePacket_short_header)
next
  fix p extra
  assume "write_result c (be16 (length send) @ send) = None"
    and "length p \<le> 65533"
    and "incoming c (be16 (length send) @ send) = be16 (length p) @ p @ extra"
  then show "snd (exchangePacket c send) = Inr p"
    using assms by (intro exchangePacket_roundtrip)
next
  fix p extra
  assume "write_result c (be16 (length send) @ send) = None"
    and "65533 < length p" and "length p \<le> 65535"
    and "incoming c (be16 (length send) @ send) = be16 (length p) @ p @ extra"
  then show "snd (exchangePacket c send) = Inl PanicSliceBounds"
    using assms by (intro exchangePacket_roundtrip_panic)
qed

theorem exchangePacket_framing_witness:
  "length [1, 2, 3 :: byte] \<le> 65535
   \<and> exchangePacket echo_conn [1, 2, 3] = ([[0, 3, 1, 2, 3]], Inr [1, 2, 3])
   \<and> length (replicate 65535 (7 :: byte)) \<le> 65535
   \<and> snd (exchangePacket echo_conn (replicate 65535 7)) = Inl PanicSliceBounds
   \<and> snd (exchangePacket echo_conn (replicate 65534 7)) = Inl PanicSliceBounds"
proof -
  have len: "length [1, 2, 3 :: byte] \<le> 65535" by simp
  note t = exchangePacket_framing[OF len, of echo_conn]
  have w: "fst (exchangePacket echo_conn [1, 2, 3]) = [[0, 3, 1, 2, 3]]"
    using t by (simp add: be16_def)
  have "length [1, 2, 3 :: byte] \<le> 65533 \<longrightarrow>
      incoming echo_conn (be16 (length [1, 2, 3 :: byte]) @ [1, 2, 3])
        = be16 (length [1, 2, 3 :: byte]) @ [1, 2, 3] @ [] \<longrightarrow>
      snd (exchangePacket echo_conn [1, 2, 3]) = Inr [1, 2, 3]"
    using t by (simp add: echo_conn_def)
  then have r: "snd (exchangePacket echo_conn [1, 2, 3]) = Inr [1, 2, 3]"
    by (simp add: echo_conn_def)
  have big: "\<And>k. 65533 < k \<Longrightarrow> k \<le> 65535 \<Longrightarrow>
      snd (exchangePacket echo_conn (replicate k (7 :: byte))) = Inl PanicSliceBounds"
  proof -
    fix k :: nat
    assume k: "65533 < k" "k \<le> 65535"
    let ?p = "replicate k (7 :: byte)"
    have lk: "length ?p \<le> 65535" using k by simp
    note tk = exchangePacket_framing[OF lk, of echo_conn]
    have wr: "write_result echo_conn (be16 (length ?p) @ ?p) = None"
      by (simp add: echo_conn_def)
    have inc: "incoming echo_conn (be16 (length ?p) @ ?p) = be16 (length ?p) @ ?p @ []"
      by (simp add: echo_conn_def)
    from tk wr have "\<forall>p extra. 65533 < length p \<longrightarrow> length p \<le> 65535 \<longrightarrow>
        incoming echo_conn (be16 (length ?p) @ ?p) = be16 (length p) @ p @ extra \<longrightarrow>
        snd (exchangePacket echo_conn ?p) = Inl PanicSliceBounds"
      by blast
    from this[rule_format, of ?p "[]"] inc k
    show "snd (exchangePacket echo_conn ?p) = Inl PanicSliceBounds"
      by simp
  qed
  have l2: "length (replicate 65535 (7 :: byte)) \<le> 65535" by simp
  show ?thesis using w r len l2 big[of 65535] big[of 65534] by (simp add: prod_eq_iff)
qed

text \<open>
  C7. A payload of more than 65535 bytes is never framed: slicing the buffer to
  \<open>2 + len(send)\<close> bytes exceeds its capacity, so the call panics before anything
  is written to the connection.
\<close>

theorem exchangePacket_rejects_long:
  "65535 < length send \<Longrightarrow> exchangePacket c send = ([], Inl PanicSliceBounds)"
  by (rule exchangePacket_too_long)

theorem exchangePacket_rejects_long_witness:
  "65535 < length (replicate 65536 (7 :: byte))
   \<and> exchangePacket echo_conn (replicate 65536 7) = ([], Inl PanicSliceBounds)"
proof -
  have len: "65535 < length (replicate 65536 (7 :: byte))" by simp
  show ?thesis using len exchangePacket_rejects_long[OF len, of echo_conn] by simp
qed

subsection \<open>The race of the dials\<close>

lemma dial_task_fail:
  "dial_task (Inl e) st = st\<lparr>errList := errList st @ [e]\<rparr>"
  by (simp add: dial_task_def)

lemma mset_remove_nth:
  "k < length xs \<Longrightarrow> add_mset (xs ! k) (mset (take k xs @ drop (Suc k) xs)) = mset xs"
proof -
  assume "k < length xs"
  then have "mset xs = mset (take k xs @ xs ! k # drop (Suc k) xs)"
    by (rule arg_cong[OF id_take_nth_drop])
  then show ?thesis by simp
qed

lemma run_tasks_all_fail:
  "\<forall>t\<in>set tasks. isl t \<Longrightarrow>
     conn (run_tasks picks tasks st) = conn st
   \<and> closed (run_tasks picks tasks st) = closed st
   \<and> spawned (run_tasks picks tasks st) = spawned st
   \<and> cancelled (run_tasks picks tasks st) = cancelled st
   \<and> (\<exists>es. errList (run_tasks picks tasks st) = errList st @ es
           \<and> mset es = mset (map projl tasks)
           \<and> (tasks \<noteq> [] \<longrightarrow>
                hd es = projl (tasks ! (case picks of [] \<Rightarrow> 0 | p # _ \<Rightarrow> p mod length tasks))))"
proof (induction picks tasks st rule: run_tasks.induct)
  case (1 picks st)
  then show ?case by simp
next
  case (2 picks t ts st)
  define k where "k = (case picks of [] \<Rightarrow> 0 | p # _ \<Rightarrow> p mod length (t # ts))"
  have k: "k < length (t # ts)" by (simp add: k_def split: list.split)
  define rest where "rest = take k (t # ts) @ drop (Suc k) (t # ts)"
  have sub: "set rest \<subseteq> set (t # ts)"
    unfolding rest_def
    using set_take_subset[of k "t # ts"] set_drop_subset[of "Suc k" "t # ts"] by auto
  have "(t # ts) ! k \<in> set (t # ts)" using k nth_mem by blast
  with 2(2) obtain e where e: "(t # ts) ! k = Inl e" by (metis isl_def)
  have allrest: "\<forall>t\<in>set rest. isl t" using sub 2(2) by blast
  have unf: "run_tasks picks (t # ts) st = run_tasks (tl picks) rest (dial_task ((t # ts) ! k) st)"
    by (simp add: k_def rest_def Let_def)
  note IH = 2(1)[OF k_def, folded rest_def, OF allrest]
  from IH obtain es where es: "errList (run_tasks (tl picks) rest (dial_task ((t # ts) ! k) st)) =
        errList (dial_task ((t # ts) ! k) st) @ es" and ms: "mset es = mset (map projl rest)"
    by blast
  have m2: "mset (e # es) = mset (map projl (t # ts))"
  proof -
    have "add_mset ((t # ts) ! k) (mset rest) = mset (t # ts)"
      unfolding rest_def using mset_remove_nth[OF k] .
    then have "image_mset projl (add_mset ((t # ts) ! k) (mset rest)) = image_mset projl (mset (t # ts))"
      by simp
    then show ?thesis using ms e by simp
  qed
  have ek: "e = projl ((t # ts) ! (case picks of [] \<Rightarrow> 0 | p # _ \<Rightarrow> p mod length (t # ts)))"
    using e unfolding k_def by simp
  have "errList (run_tasks picks (t # ts) st) = errList st @ (e # es)"
    unfolding unf using es e by (simp add: dial_task_fail)
  moreover have "hd (e # es) = projl ((t # ts) ! (case picks of [] \<Rightarrow> 0 | p # _ \<Rightarrow> p mod length (t # ts)))"
    using ek by simp
  moreover have "conn (run_tasks picks (t # ts) st) = conn st"
    "closed (run_tasks picks (t # ts) st) = closed st"
    "spawned (run_tasks picks (t # ts) st) = spawned st"
    "cancelled (run_tasks picks (t # ts) st) = cancelled st"
    unfolding unf using IH e by (simp_all add: dial_task_fail)
  ultimately show ?case using m2 by blast
qed

lemma conn_run_tasks_keeps:
  "conn st = Some c \<Longrightarrow> conn (run_tasks picks tasks st) = Some c"
proof (induction picks tasks st rule: run_tasks.induct)
  case (1 picks st)
  then show ?case by simp
next
  case (2 picks t ts st)
  define k where "k = (case picks of [] \<Rightarrow> 0 | p # _ \<Rightarrow> p mod length (t # ts))"
  have "conn (dial_task ((t # ts) ! k) st) = Some c"
    using 2(2) by (simp add: dial_task_def split: sum.split)
  from 2(1)[OF k_def this] show ?case by (simp add: k_def Let_def)
qed

lemma conn_run_tasks_same:
  assumes "\<forall>t\<in>set tasks. t = Inr c" and "tasks \<noteq> []" and "conn st = None"
  shows "conn (run_tasks picks tasks st) = Some c"
proof -
  obtain t ts where ts: "tasks = t # ts" using assms(2) by (cases tasks) auto
  define k where "k = (case picks of [] \<Rightarrow> 0 | p # _ \<Rightarrow> p mod length (t # ts))"
  have k: "k < length (t # ts)" by (simp add: k_def split: list.split)
  then have "(t # ts) ! k \<in> set tasks" unfolding ts using nth_mem by blast
  then have "(t # ts) ! k = Inr c" using assms(1) by blast
  then have "conn (dial_task ((t # ts) ! k) st) = Some c"
    using assms(3) by (simp add: dial_task_def)
  from conn_run_tasks_keeps[OF this]
  show ?thesis unfolding ts by (simp add: k_def Let_def)
qed

lemma gDialRemote_same:
  "sl \<noteq> [] \<Longrightarrow> gDialRemote (\<lambda>i addr. Inr c) picks sl = Inr c"
proof -
  assume sl: "sl \<noteq> []"
  have "conn (run_tasks picks (spawn_all (\<lambda>i addr. Inr c) sl)
           (race_init\<lparr>spawned := length (spawn_all (\<lambda>i addr. Inr c) sl)\<rparr>)) = Some c"
    by (rule conn_run_tasks_same) (use sl in \<open>auto simp: spawn_all_def race_init_def\<close>)
  then show ?thesis using sl
    by (simp add: gDialRemote_def gDialRemote_race_def Let_def)
qed

lemma gDialRemote_race_empty:
  "gDialRemote_race dial picks [] = (Inl ErrTargetAddrListNil, race_init)"
  by (simp add: gDialRemote_race_def)

lemma gDialRemote_race_all_fail:
  assumes "targetAddrList \<noteq> []"
    and "\<forall>i < length targetAddrList. isl (dial i (targetAddrList ! i))"
  shows "\<exists>e es. errList (snd (gDialRemote_race dial picks targetAddrList)) = e # es
       \<and> fst (gDialRemote_race dial picks targetAddrList) = Inl e
       \<and> length (e # es) = length targetAddrList
       \<and> spawned (snd (gDialRemote_race dial picks targetAddrList)) = length targetAddrList
       \<and> conn (snd (gDialRemote_race dial picks targetAddrList)) = None
       \<and> e = projl (dial (case picks of [] \<Rightarrow> 0 | p # _ \<Rightarrow> p mod length targetAddrList)
                       (targetAddrList ! (case picks of [] \<Rightarrow> 0 | p # _ \<Rightarrow> p mod length targetAddrList)))"
proof -
  let ?tasks = "spawn_all dial targetAddrList"
  let ?st0 = "race_init\<lparr>spawned := length ?tasks\<rparr>"
  let ?k = "case picks of [] \<Rightarrow> 0 | p # _ \<Rightarrow> p mod length targetAddrList"
  have len: "length ?tasks = length targetAddrList" by (simp add: spawn_all_def)
  have ne: "?tasks \<noteq> []" using assms(1) len by auto
  have k: "?k < length targetAddrList" using assms(1) by (simp split: list.split)
  have all: "\<forall>t\<in>set ?tasks. isl t" using assms(2) by (auto simp: spawn_all_def)
  from run_tasks_all_fail[OF all, of picks ?st0] obtain es where
    c: "conn (run_tasks picks ?tasks ?st0) = None"
    and sp: "spawned (run_tasks picks ?tasks ?st0) = length targetAddrList"
    and es: "errList (run_tasks picks ?tasks ?st0) = es"
    and ms: "mset es = mset (map projl ?tasks)"
    and h: "hd es = projl (?tasks ! (case picks of [] \<Rightarrow> 0 | p # _ \<Rightarrow> p mod length ?tasks))"
    using ne by (auto simp: race_init_def len)
  have "length es = length targetAddrList"
    using ms len by (metis length_map size_mset)
  then obtain e es' where e: "es = e # es'" using assms(1) by (cases es) auto
  have "?tasks ! ?k = dial ?k (targetAddrList ! ?k)"
    using k by (simp add: spawn_all_def)
  then have he: "e = projl (dial ?k (targetAddrList ! ?k))" using h[unfolded len] e by simp
  show ?thesis
    using assms(1) c sp es e he \<open>length es = length targetAddrList\<close>
    by (simp add: gDialRemote_race_def Let_def)
qed

text \<open>
  C8. On an empty address list gDialRemote returns its own error at once: no goroutine
  has been started and the race state is untouched. On a non-empty list where every
  dial fails, every goroutine has recorded its error, no connection was won, and the
  call returns the first error recorded, that of the goroutine that took the lock
  first.
\<close>

theorem gDialRemote_empty_or_all_fail:
  "gDialRemote_race dial picks [] = (Inl ErrTargetAddrListNil, race_init)
   \<and> spawned race_init = 0
   \<and> (targetAddrList \<noteq> [] \<longrightarrow>
        (\<forall>i < length targetAddrList. isl (dial i (targetAddrList ! i))) \<longrightarrow>
        (\<exists>e es. errList (snd (gDialRemote_race dial picks targetAddrList)) = e # es
           \<and> gDialRemote dial picks targetAddrList = Inl e
           \<and> length (e # es) = length targetAddrList
           \<and> spawned (snd (gDialRemote_race dial picks targetAddrList)) = length targetAddrList
           \<and> conn (snd (gDialRemote_race dial picks targetAddrList)) = None
           \<and> e = projl (dial (case picks of [] \<Rightarrow> 0 | p # _ \<Rightarrow> p mod length targetAddrList)
                      (targetAddrList !
                         (case picks of [] \<Rightarrow> 0 | p # _ \<Rightarrow> p mod length targetAddrList)))))"
proof (intro conjI impI)
  show "gDialRemote_race dial picks [] = (Inl ErrTargetAddrListNil, race_init)"
    by (rule gDialRemote_race_empty)
  show "spawned race_init = 0"
    by (simp add: race_init_def)
next
  assume ne: "targetAddrList \<noteq> []"
    and all: "\<forall>i < length targetAddrList. isl (dial i (targetAddrList ! i))"
  from gDialRemote_race_all_fail[of targetAddrList dial picks, OF ne all]
  show "\<exists>e es. errList (snd (gDialRemote_race dial picks targetAddrList)) = e # es
           \<and> gDialRemote dial picks targetAddrList = Inl e
           \<and> length (e # es) = length targetAddrList
           \<and> spawned (snd (gDialRemote_race dial picks targetAddrList)) = length targetAddrList
           \<and> conn (snd (gDialRemote_race dial picks targetAddrList)) = None
           \<and> e = projl (dial (case picks of [] \<Rightarrow> 0 | p # _ \<Rightarrow> p mod length targetAddrList)
                      (targetAddrList !
                         (case picks of [] \<Rightarrow> 0 | p # _ \<Rightarrow> p mod length targetAddrList)))"
    unfolding gDialRemote_def by blast
qed

theorem gDialRemote_empty_or_all_fail_witness:
  "[''a:53'', ''b:53''] \<noteq> []
   \<and> list_all isl (spawn_all (\<lambda>i addr. Inl (NetError addr) :: error + Conn) [''a:53'', ''b:53''])
   \<and> gDialRemote (\<lambda>i addr. Inl (NetError addr)) [1] [''a:53'', ''b:53''] = Inl (NetError ''b:53'')
   \<and> gDialRemote (\<lambda>i addr. Inl (NetError addr)) [1] [] = Inl ErrTargetAddrListNil"
proof -
  let ?dial = "\<lambda>(i::nat) addr. Inl (NetError addr) :: error + Conn"
  have ne: "[''a:53'', ''b:53''] \<noteq> []" by simp
  have all: "\<forall>i < length [''a:53'', ''b:53'']. isl (?dial i ([''a:53'', ''b:53''] ! i))"
    by simp
  note t = gDialRemote_empty_or_all_fail[of ?dial "[1]" "[''a:53'', ''b:53'']"]
  from t ne all have "\<exists>e. gDialRemote ?dial [1] [''a:53'', ''b:53''] = Inl e
      \<and> e = projl (?dial (1 mod 2) ([''a:53'', ''b:53''] ! (1 mod 2)))"
    by auto
  then have "gDialRemote ?dial [1] [''a:53'', ''b:53''] = Inl (NetError ''b:53'')"
    by simp
  moreover from t have "gDialRemote ?dial [1] [] = Inl ErrTargetAddrListNil"
    by (simp add: gDialRemote_def)
  moreover have "list_all isl (spawn_all ?dial [''a:53'', ''b:53''])"
    by (simp add: spawn_all_def upt_rec)
  ultimately show ?thesis using ne by blast
qed

subsection \<open>The referral loop\<close>

lemma L1_unfold:
  "lookupResourceListL1 E g domain typeC =
     (case NewName E (if \<not> HasSuffix domain ''.'' then domain @ ''.'' else domain) of
        Inl err \<Rightarrow> (Inl err, g, [])
      | Inr name \<Rightarrow>
         (case Pack E (query_msg (ucast (g + 1)) name typeC) of
            Inl err \<Rightarrow> (Inl err, g + 1, [PackCall (query_msg (ucast (g + 1)) name typeC)])
          | Inr send \<Rightarrow>
             (fst (lookup_loop E send 0 gRootServers), g + 1,
              PackCall (query_msg (ucast (g + 1)) name typeC)
                # snd (lookup_loop E send 0 gRootServers))))"
  by (simp add: lookupResourceListL1_def Let_def atomic_AddUint32_def query_msg_def
           split: sum.split prod.split)

lemma hop_Next:
  "hop E send d sl = (Next ns, evs) \<Longrightarrow> ns \<noteq> [] \<and> evs = [Dial d sl, Exchange d send, Close d]"
  by (auto simp: hop_def split: sum.splits if_splits)

lemma loop_dials_depths:
  "map fst (dials (snd (lookup_loop E send d sl))) =
     [d..<d + length (dials (snd (lookup_loop E send d sl)))]
   \<and> length (dials (snd (lookup_loop E send d sl))) \<le> 11 - d"
proof (induction "11 - d" arbitrary: d sl)
  case 0
  then have "10 < d" by simp
  then show ?case by (simp add: loop_past)
next
  case (Suc n)
  then have d: "d \<le> 10" by simp
  obtain h evs where h: "hop E send d sl = (h, evs)" by (cases "hop E send d sl")
  have evs: "dials evs = [(d, sl)]" using hop_dials[of E send d sl] h by simp
  show ?case
  proof (cases h)
    case (Done r)
    then have "lookup_loop E send d sl = (r, evs)" using loop_Done[OF d] h by simp
    then show ?thesis using evs d by simp
  next
    case (Next ns)
    have eq: "lookup_loop E send d sl =
       (fst (lookup_loop E send (Suc d) ns), evs @ snd (lookup_loop E send (Suc d) ns))"
      using loop_Next[OF d] h Next by simp
    have "n = 11 - Suc d" using Suc.hyps(2) by simp
    from Suc.hyps(1)[OF this, of ns]
    show ?thesis
      unfolding eq using d evs 
      by (auto simp: dials_append upt_rec[of d])
  qed
qed

lemma loop_exchanges_le:
  "length (exchanges (snd (lookup_loop E send d sl))) \<le> length (dials (snd (lookup_loop E send d sl)))
   \<and> (\<forall>x \<in> set (exchanges (snd (lookup_loop E send d sl))). snd x = send \<and> d \<le> fst x \<and> fst x \<le> 10)"
proof (induction "11 - d" arbitrary: d sl)
  case 0
  then have "10 < d" by simp
  then show ?case by (simp add: loop_past)
next
  case (Suc n)
  then have d: "d \<le> 10" by simp
  obtain h evs where h: "hop E send d sl = (h, evs)" by (cases "hop E send d sl")
  have evs: "dials evs = [(d, sl)]" using hop_dials[of E send d sl] h by simp
  have exs: "exchanges evs = [] \<or> exchanges evs = [(d, send)]"
    using hop_exchanges[of E send d sl] h by simp
  show ?case
  proof (cases h)
    case (Done r)
    then have "lookup_loop E send d sl = (r, evs)" using loop_Done[OF d] h by simp
    then show ?thesis using evs exs d by auto
  next
    case (Next ns)
    have eq: "lookup_loop E send d sl =
       (fst (lookup_loop E send (Suc d) ns), evs @ snd (lookup_loop E send (Suc d) ns))"
      using loop_Next[OF d] h Next by simp
    have "n = 11 - Suc d" using Suc.hyps(2) by simp
    from Suc.hyps(1)[OF this, of ns]
    show ?thesis
      unfolding eq using d evs exs
      by (auto simp: dials_append exchanges_append)
  qed
qed

lemma loop_packed: "packed (snd (lookup_loop E send d sl)) = []"
proof (induction "11 - d" arbitrary: d sl)
  case 0
  then have "10 < d" by simp
  then show ?case by (simp add: loop_past)
next
  case (Suc n)
  then have d: "d \<le> 10" by simp
  obtain h evs where h: "hop E send d sl = (h, evs)" by (cases "hop E send d sl")
  have evs: "packed evs = []" using hop_packed[of E send d sl] h by simp
  show ?case
  proof (cases h)
    case (Done r)
    then have "lookup_loop E send d sl = (r, evs)" using loop_Done[OF d] h by simp
    then show ?thesis using evs by simp
  next
    case (Next ns)
    have eq: "lookup_loop E send d sl =
       (fst (lookup_loop E send (Suc d) ns), evs @ snd (lookup_loop E send (Suc d) ns))"
      using loop_Next[OF d] h Next by simp
    have "n = 11 - Suc d" using Suc.hyps(2) by simp
    from Suc.hyps(1)[OF this, of ns]
    show ?thesis unfolding eq using evs by (simp add: packed_append)
  qed
qed

lemma loop_dials_nonempty:
  "sl \<noteq> [] \<Longrightarrow> \<forall>x \<in> set (dials (snd (lookup_loop E send d sl))). snd x \<noteq> []"
proof (induction "11 - d" arbitrary: d sl)
  case 0
  then have "10 < d" by simp
  then show ?case by (simp add: loop_past)
next
  case (Suc n)
  then have d: "d \<le> 10" by simp
  obtain h evs where h: "hop E send d sl = (h, evs)" by (cases "hop E send d sl")
  have evs: "dials evs = [(d, sl)]" using hop_dials[of E send d sl] h by simp
  show ?case
  proof (cases h)
    case (Done r)
    then have "lookup_loop E send d sl = (r, evs)" using loop_Done[OF d] h by simp
    then show ?thesis using evs Suc.prems by simp
  next
    case (Next ns)
    have eq: "lookup_loop E send d sl =
       (fst (lookup_loop E send (Suc d) ns), evs @ snd (lookup_loop E send (Suc d) ns))"
      using loop_Next[OF d] h Next by simp
    have ns: "ns \<noteq> []" using hop_Next h Next by blast
    have "n = 11 - Suc d" using Suc.hyps(2) by simp
    from Suc.hyps(1)[OF this ns]
    show ?thesis unfolding eq using evs Suc.prems by (simp add: dials_append)
  qed
qed

lemma loop_exhaust:
  assumes "\<forall>d sl. d \<le> 10 \<longrightarrow> sl \<noteq> [] \<longrightarrow> (\<exists>ns evs. hop E send d sl = (Next ns, evs))"
  shows "sl \<noteq> [] \<Longrightarrow> fst (lookup_loop E send d sl) = Inl ErrMaxDepth
     \<and> length (dials (snd (lookup_loop E send d sl))) = 11 - d"
proof (induction "11 - d" arbitrary: d sl)
  case 0
  then have "10 < d" by simp
  then show ?case by (simp add: loop_past)
next
  case (Suc n)
  then have d: "d \<le> 10" by simp
  from assms d Suc.prems obtain ns evs where h: "hop E send d sl = (Next ns, evs)" by blast
  have ns: "ns \<noteq> []" and evs: "evs = [Dial d sl, Exchange d send, Close d]"
    using hop_Next[OF h] by simp_all
  have eq: "lookup_loop E send d sl =
       (fst (lookup_loop E send (Suc d) ns), evs @ snd (lookup_loop E send (Suc d) ns))"
    using loop_Next[OF d h] .
  have "n = 11 - Suc d" using Suc.hyps(2) by simp
  from Suc.hyps(1)[OF this ns]
  show ?case unfolding eq using d evs by (simp add: dials_append)
qed

lemma gRootServers_nonempty: "gRootServers \<noteq> []" "length gRootServers = 13"
  by (simp_all add: gRootServers_def)

lemma nsList_loop_eq:
  "nsList_loop rs acc = acc @ map (\<lambda>ns. TrimSuffix ns ''.'' @ '':53'') (ns_targets rs)"
proof (induction rs arbitrary: acc)
  case Nil
  then show ?case by (simp add: ns_targets_def)
next
  case (Cons r rs)
  then show ?case by (cases "Body r") (simp_all add: ns_targets_def)
qed

lemma ns_targets_empty:
  "ns_targets rs = [] \<longleftrightarrow> (\<forall>r \<in> set rs. \<forall>ns. Body r \<noteq> NSResource ns)"
  by (induction rs) (auto simp: ns_targets_def split: ResourceBody.splits)

lemma loop_dials_head:
  "d \<le> 10 \<Longrightarrow> \<exists>rest. dials (snd (lookup_loop E send d sl)) = (d, sl) # rest"
proof -
  assume d: "d \<le> 10"
  obtain h evs where h: "hop E send d sl = (h, evs)" by (cases "hop E send d sl")
  have evs: "dials evs = [(d, sl)]" using hop_dials[of E send d sl] h by simp
  show ?thesis
  proof (cases h)
    case (Done r)
    then have "lookup_loop E send d sl = (r, evs)" using loop_Done[OF d] h by simp
    then show ?thesis using evs by simp
  next
    case (Next ns)
    have "lookup_loop E send d sl =
       (fst (lookup_loop E send (Suc d) ns), evs @ snd (lookup_loop E send (Suc d) ns))"
      using loop_Next[OF d] h Next by simp
    then show ?thesis using evs by (simp add: dials_append)
  qed
qed

lemma hop_empty_answer:
  assumes "gDialRemote (net_dial E d) (net_sched E d) sl = Inr c"
    and "snd (exchangePacket c send) = Inr receive"
    and "Unpack E receive = Inr msg"
    and "Answers msg = []"
  shows "hop E send d sl =
     (if ns_targets (Authorities msg) = [] then Done (Inl ErrNotFound)
      else Next (map (\<lambda>ns. TrimSuffix ns ''.'' @ '':53'') (ns_targets (Authorities msg))),
      [Dial d sl, Exchange d send, Close d])"
  using assms by (simp add: hop_def nsList_loop_eq)

subsection \<open>Runs in the small world\<close>

lemma exchangePacket_peer: "snd (exchangePacket peer_conn []) = Inr []"
proof -
  have "snd (exchangePacket peer_conn []) = Inr (take (256 * unat (0::byte) + unat (0::byte)) [])"
    by (rule exchangePacket_reply) (simp_all add: peer_conn_def)
  then show ?thesis by simp
qed

lemma hop_reply_env:
  assumes "sl \<noteq> []"
  shows "hop (reply_env m) [] d sl =
     (if Answers m \<noteq> [] then Done (Inr (Answers m))
      else if nsList_loop (Authorities m) [] = [] then Done (Inl ErrNotFound)
      else Next (nsList_loop (Authorities m) []),
      [Dial d sl, Exchange d [], Close d])"
  using assms
  by (simp add: hop_def reply_env_def gDialRemote_same exchangePacket_peer)

lemma L1_reply_env_answers:
  assumes "ans \<noteq> []"
  shows "lookupResourceListL1 (reply_env (reply_msg ans auth)) g domain typeC =
     (Inr ans, g + 1,
      [PackCall (query_msg (ucast (g + 1))
                   (if \<not> HasSuffix domain ''.'' then domain @ ''.'' else domain) typeC),
       Dial 0 gRootServers, Exchange 0 [], Close 0])"
proof -
  have h: "hop (reply_env (reply_msg ans auth)) [] 0 gRootServers =
      (Done (Inr ans), [Dial 0 gRootServers, Exchange 0 [], Close 0])"
    using assms by (simp add: hop_reply_env gRootServers_nonempty reply_msg_def)
  have "lookup_loop (reply_env (reply_msg ans auth)) [] 0 gRootServers =
      (Inr ans, [Dial 0 gRootServers, Exchange 0 [], Close 0])"
    by (rule loop_Done[OF _ h]) simp
  then show ?thesis
    by (simp add: L1_unfold) (simp add: reply_env_def)
qed

subsection \<open>The depth budget and the referral sets\<close>

text \<open>
  C1. A resolution dials at depths 0, 1, 2, ... in order and never at a depth above
  10: at most 11 dials, and no more exchanges than dials. From a depth above 10 the
  loop returns ErrMaxDepth without another dial. So when every hop at depths 0 to 10
  is a referral (the hop ends in \<open>Next\<close>), the resolution makes exactly the 11 dials
  at depths 0 to 10 and fails with ErrMaxDepth.
\<close>

theorem referral_depth_budget:
  "map fst (dials (snd (snd (lookupResourceListL1 E g domain typeC)))) =
      [0..<length (dials (snd (snd (lookupResourceListL1 E g domain typeC))))]
   \<and> length (dials (snd (snd (lookupResourceListL1 E g domain typeC)))) \<le> 11
   \<and> length (exchanges (snd (snd (lookupResourceListL1 E g domain typeC))))
        \<le> length (dials (snd (snd (lookupResourceListL1 E g domain typeC))))
   \<and> (10 < d \<longrightarrow> lookup_loop E send d sl = (Inl ErrMaxDepth, []))
   \<and> (NewName E (if \<not> HasSuffix domain ''.'' then domain @ ''.'' else domain) = Inr name \<longrightarrow>
      Pack E (query_msg (ucast (g + 1)) name typeC) = Inr send \<longrightarrow>
      (\<forall>d sl. d \<le> 10 \<longrightarrow> sl \<noteq> [] \<longrightarrow> (\<exists>ns evs. hop E send d sl = (Next ns, evs))) \<longrightarrow>
        fst (lookupResourceListL1 E g domain typeC) = Inl ErrMaxDepth
      \<and> map fst (dials (snd (snd (lookupResourceListL1 E g domain typeC)))) = [0..<11])"
proof -
  let ?evs = "snd (snd (lookupResourceListL1 E g domain typeC))"
  have cases: "dials ?evs = [] \<and> exchanges ?evs = [] \<or>
     (\<exists>send. dials ?evs = dials (snd (lookup_loop E send 0 gRootServers))
           \<and> exchanges ?evs = exchanges (snd (lookup_loop E send 0 gRootServers)))"
    by (auto simp: L1_unfold split: sum.split)
  have a: "map fst (dials ?evs) = [0..<length (dials ?evs)]"
    using cases loop_dials_depths[of E _ 0 gRootServers] by auto
  have b: "length (dials ?evs) \<le> 11"
    using cases loop_dials_depths[of E _ 0 gRootServers] by auto
  have c: "length (exchanges ?evs) \<le> length (dials ?evs)"
    using cases loop_exchanges_le[of E _ 0 gRootServers] by auto
  have e: "NewName E (if \<not> HasSuffix domain ''.'' then domain @ ''.'' else domain) = Inr name \<longrightarrow>
      Pack E (query_msg (ucast (g + 1)) name typeC) = Inr send \<longrightarrow>
      (\<forall>d sl. d \<le> 10 \<longrightarrow> sl \<noteq> [] \<longrightarrow> (\<exists>ns evs. hop E send d sl = (Next ns, evs))) \<longrightarrow>
        fst (lookupResourceListL1 E g domain typeC) = Inl ErrMaxDepth
      \<and> map fst (dials ?evs) = [0..<11]"
  proof (intro impI)
    assume n: "NewName E (if \<not> HasSuffix domain ''.'' then domain @ ''.'' else domain) = Inr name"
      and p: "Pack E (query_msg (ucast (g + 1)) name typeC) = Inr send"
      and r: "\<forall>d sl. d \<le> 10 \<longrightarrow> sl \<noteq> [] \<longrightarrow> (\<exists>ns evs. hop E send d sl = (Next ns, evs))"
    have eq: "lookupResourceListL1 E g domain typeC =
        (fst (lookup_loop E send 0 gRootServers), g + 1,
         PackCall (query_msg (ucast (g + 1)) name typeC) # snd (lookup_loop E send 0 gRootServers))"
      by (simp add: L1_unfold n p)
    from loop_exhaust[OF r gRootServers_nonempty(1), of 0]
    have "fst (lookup_loop E send 0 gRootServers) = Inl ErrMaxDepth"
      and "length (dials (snd (lookup_loop E send 0 gRootServers))) = 11" by simp_all
    then have "fst (lookupResourceListL1 E g domain typeC) = Inl ErrMaxDepth"
      and "length (dials ?evs) = 11" by (simp_all add: eq)
    then show "fst (lookupResourceListL1 E g domain typeC) = Inl ErrMaxDepth
      \<and> map fst (dials ?evs) = [0..<11]" using a by simp
  qed
  show ?thesis using a b c e loop_past[of d E send sl] by blast
qed

theorem referral_depth_budget_witness:
  "NewName (reply_env (reply_msg [] [rr (NSResource ''ns.example.com.'')]))
       (if \<not> HasSuffix ''example.com'' ''.'' then ''example.com'' @ ''.'' else ''example.com'')
     = Inr ''example.com.''
   \<and> Pack (reply_env (reply_msg [] [rr (NSResource ''ns.example.com.'')]))
       (query_msg (ucast ((0 :: uint32) + 1)) ''example.com.'' TypeA) = Inr []
   \<and> (\<exists>ns evs. hop (reply_env (reply_msg [] [rr (NSResource ''ns.example.com.'')])) []
                   10 [''ns.example.com:53''] = (Next ns, evs))
   \<and> fst (lookupResourceListL1 (reply_env (reply_msg [] [rr (NSResource ''ns.example.com.'')]))
            0 ''example.com'' TypeA) = Inl ErrMaxDepth
   \<and> map fst (dials (snd (snd (lookupResourceListL1
            (reply_env (reply_msg [] [rr (NSResource ''ns.example.com.'')]))
            0 ''example.com'' TypeA)))) = [0..<11]"
proof -
  let ?E = "reply_env (reply_msg [] [rr (NSResource ''ns.example.com.'')])"
  have n: "NewName ?E (if \<not> HasSuffix ''example.com'' ''.'' then ''example.com'' @ ''.''
                       else ''example.com'') = Inr ''example.com.''"
    by (simp add: reply_env_def HasSuffix_def)
  have p: "Pack ?E (query_msg (ucast ((0 :: uint32) + 1)) ''example.com.'' TypeA) = Inr []"
    by (simp add: reply_env_def)
  have r: "\<forall>d sl. d \<le> 10 \<longrightarrow> sl \<noteq> [] \<longrightarrow> (\<exists>ns evs. hop ?E [] d sl = (Next ns, evs))"
    by (simp add: hop_reply_env reply_msg_def rr_def)
  from referral_depth_budget[where E = ?E and g = 0 and domain = "''example.com''"
      and typeC = TypeA and name = "''example.com.''" and send = "[]"] n p r
  have "fst (lookupResourceListL1 ?E 0 ''example.com'' TypeA) = Inl ErrMaxDepth
      \<and> map fst (dials (snd (snd (lookupResourceListL1 ?E 0 ''example.com'' TypeA)))) = [0..<11]"
    by blast
  moreover have "\<exists>ns evs. hop ?E [] 10 [''ns.example.com:53''] = (Next ns, evs)"
    using r by simp
  ultimately show ?thesis using n p by blast
qed

text \<open>
  C2. At a hop (depth at most 10) whose reply decodes to a message without answers:
  if the authority section has no NS record the loop returns ErrNotFound there;
  otherwise the loop goes on with exactly the list of the NS targets, in order, each
  with one trailing dot trimmed and \<open>:53\<close> appended, this list is not empty, and
  (below depth 10) it is the list handed to the next dial. The root list is not empty,
  and every list a resolution hands to gDialRemote is not empty.
\<close>

theorem referral_server_set:
  "(d \<le> 10 \<longrightarrow>
    gDialRemote (net_dial E d) (net_sched E d) sl = Inr c \<longrightarrow>
    snd (exchangePacket c send) = Inr receive \<longrightarrow>
    Unpack E receive = Inr msg \<longrightarrow>
    Answers msg = [] \<longrightarrow>
      ((\<forall>r \<in> set (Authorities msg). \<forall>ns. Body r \<noteq> NSResource ns) \<longrightarrow>
         lookup_loop E send d sl = (Inl ErrNotFound, [Dial d sl, Exchange d send, Close d]))
    \<and> ((\<exists>r \<in> set (Authorities msg). \<exists>ns. Body r = NSResource ns) \<longrightarrow>
         map (\<lambda>ns. TrimSuffix ns ''.'' @ '':53'') (ns_targets (Authorities msg)) \<noteq> []
       \<and> lookup_loop E send d sl =
          (fst (lookup_loop E send (Suc d)
                  (map (\<lambda>ns. TrimSuffix ns ''.'' @ '':53'') (ns_targets (Authorities msg)))),
           [Dial d sl, Exchange d send, Close d] @
           snd (lookup_loop E send (Suc d)
                  (map (\<lambda>ns. TrimSuffix ns ''.'' @ '':53'') (ns_targets (Authorities msg)))))
       \<and> (d < 10 \<longrightarrow>
            take 2 (dials (snd (lookup_loop E send d sl))) =
              [(d, sl),
               (Suc d, map (\<lambda>ns. TrimSuffix ns ''.'' @ '':53'') (ns_targets (Authorities msg)))])))
   \<and> gRootServers \<noteq> []
   \<and> (\<forall>x \<in> set (dials (snd (snd (lookupResourceListL1 E g domain typeC)))). snd x \<noteq> [])"
proof (intro conjI impI)
  assume d: "d \<le> 10"
    and g: "gDialRemote (net_dial E d) (net_sched E d) sl = Inr c"
    and x: "snd (exchangePacket c send) = Inr receive"
    and u: "Unpack E receive = Inr msg"
    and a: "Answers msg = []"
  note h = hop_empty_answer[OF g x u a]
  {
    assume "\<forall>r \<in> set (Authorities msg). \<forall>ns. Body r \<noteq> NSResource ns"
    then have "ns_targets (Authorities msg) = []" by (simp add: ns_targets_empty)
    then show "lookup_loop E send d sl = (Inl ErrNotFound, [Dial d sl, Exchange d send, Close d])"
      using h loop_Done[OF d] by simp
  }
  {
    let ?next = "map (\<lambda>ns. TrimSuffix ns ''.'' @ '':53'') (ns_targets (Authorities msg))"
    assume "\<exists>r \<in> set (Authorities msg). \<exists>ns. Body r = NSResource ns"
    then have ne: "ns_targets (Authorities msg) \<noteq> []" by (simp add: ns_targets_empty)
    then show "?next \<noteq> []" by simp
    from ne h have h': "hop E send d sl = (Next ?next, [Dial d sl, Exchange d send, Close d])"
      by simp
    show eq: "lookup_loop E send d sl =
          (fst (lookup_loop E send (Suc d) ?next),
           [Dial d sl, Exchange d send, Close d] @ snd (lookup_loop E send (Suc d) ?next))"
      using loop_Next[OF d h'] .
    {
      assume "d < 10"
      then have "Suc d \<le> 10" by simp
      from loop_dials_head[OF this, of E send ?next] obtain rest where
        "dials (snd (lookup_loop E send (Suc d) ?next)) = (Suc d, ?next) # rest" by blast
      then show "take 2 (dials (snd (lookup_loop E send d sl))) = [(d, sl), (Suc d, ?next)]"
        unfolding eq by (simp add: dials_append)
    }
  }
next
  show "gRootServers \<noteq> []" by (rule gRootServers_nonempty)
next
  let ?evs = "snd (snd (lookupResourceListL1 E g domain typeC))"
  have "dials ?evs = [] \<or> (\<exists>send. dials ?evs = dials (snd (lookup_loop E send 0 gRootServers)))"
    by (auto simp: L1_unfold split: sum.split)
  then show "\<forall>x \<in> set (dials ?evs). snd x \<noteq> []"
  proof
    assume "dials ?evs = []"
    then show ?thesis by simp
  next
    assume "\<exists>send. dials ?evs = dials (snd (lookup_loop E send 0 gRootServers))"
    then obtain send where "dials ?evs = dials (snd (lookup_loop E send 0 gRootServers))" ..
    then show ?thesis
      using loop_dials_nonempty[OF gRootServers_nonempty(1), of E send 0] by simp
  qed
qed

theorem referral_server_set_witness:
  "(0 :: nat) \<le> 10
   \<and> gDialRemote (net_dial (reply_env (reply_msg [] [rr (NSResource ''ns.example.com.'')])) 0)
        (net_sched (reply_env (reply_msg [] [rr (NSResource ''ns.example.com.'')])) 0)
        gRootServers = Inr peer_conn
   \<and> snd (exchangePacket peer_conn []) = Inr []
   \<and> Unpack (reply_env (reply_msg [] [rr (NSResource ''ns.example.com.'')])) []
        = Inr (reply_msg [] [rr (NSResource ''ns.example.com.'')])
   \<and> Answers (reply_msg [] [rr (NSResource ''ns.example.com.'')]) = []
   \<and> (\<exists>r \<in> set (Authorities (reply_msg [] [rr (NSResource ''ns.example.com.'')])).
         \<exists>ns. Body r = NSResource ns)
   \<and> take 2 (dials (snd (lookup_loop
         (reply_env (reply_msg [] [rr (NSResource ''ns.example.com.'')])) [] 0 gRootServers)))
       = [(0, gRootServers), (1, [''ns.example.com:53''])]
   \<and> ns_targets (Authorities (reply_msg [] [rr (AResource 192 0 2 1)])) = []
   \<and> lookup_loop (reply_env (reply_msg [] [rr (AResource 192 0 2 1)])) [] 0 gRootServers
       = (Inl ErrNotFound, [Dial 0 gRootServers, Exchange 0 [], Close 0])"
proof -
  let ?m = "reply_msg [] [rr (NSResource ''ns.example.com.'')]"
  let ?m' = "reply_msg [] [rr (AResource 192 0 2 1)]"
  have d: "(0 :: nat) \<le> 10" by simp
  have lt: "(0 :: nat) < 10" by simp
  have g: "\<And>m. gDialRemote (net_dial (reply_env m) 0) (net_sched (reply_env m) 0) gRootServers
      = Inr peer_conn"
    by (simp add: reply_env_def gDialRemote_same gRootServers_nonempty)
  have x: "snd (exchangePacket peer_conn []) = Inr []" by (rule exchangePacket_peer)
  have u: "\<And>m. Unpack (reply_env m) [] = Inr m" by (simp add: reply_env_def)
  have a: "Answers ?m = []" "Answers ?m' = []" by (simp_all add: reply_msg_def)
  have ns: "\<exists>r \<in> set (Authorities ?m). \<exists>ns. Body r = NSResource ns"
    by (simp add: reply_msg_def rr_def)
  have no: "\<forall>r \<in> set (Authorities ?m'). \<forall>ns. Body r \<noteq> NSResource ns"
    by (simp add: reply_msg_def rr_def)
  have t: "map (\<lambda>ns. TrimSuffix ns ''.'' @ '':53'') (ns_targets (Authorities ?m))
      = [''ns.example.com:53'']"
    by (simp add: reply_msg_def rr_def ns_targets_def TrimSuffix_def HasSuffix_def)
  from referral_server_set[where d = 0 and E = "reply_env ?m" and sl = gRootServers
      and c = peer_conn and send = "[]" and receive = "[]" and msg = ?m
      and g = 0 and domain = "[]" and typeC = TypeA]
    d lt g[of ?m] x u[of ?m] a(1) ns
  have "take 2 (dials (snd (lookup_loop (reply_env ?m) [] 0 gRootServers)))
       = [(0, gRootServers), (Suc 0, [''ns.example.com:53''])]"
    unfolding t by blast
  moreover
  from referral_server_set[where d = 0 and E = "reply_env ?m'" and sl = gRootServers
      and c = peer_conn and send = "[]" and receive = "[]" and msg = ?m'
      and g = 0 and domain = "[]" and typeC = TypeA]
    d g[of ?m'] x u[of ?m'] a(2) no
  have "lookup_loop (reply_env ?m') [] 0 gRootServers
       = (Inl ErrNotFound, [Dial 0 gRootServers, Exchange 0 [], Close 0])"
    by blast
  moreover have "ns_targets (Authorities ?m') = []"
    using no by (simp add: ns_targets_empty)
  ultimately show ?thesis using d g[of ?m] x u[of ?m] a(1) ns by simp
qed

subsection \<open>The query: identifier and name\<close>

lemma dvd16: "(65536::nat) dvd 4294967296" by simp

lemma ucast_unat: "unat (ucast (g:: uint32) :: uint16) = unat g mod 65536"
  by (simp add: unsigned_ucast_eq  take_bit_eq_mod)

lemma ucast_period: "(ucast (g + 65536 :: uint32) :: uint16) = ucast g"
  by (simp add: word_eq_iff_unsigned[where ?'a=nat] ucast_unat unat_word_ariths mod_mod_cancel[OF dvd16])

lemma Suc_mod_mod: "Suc (n mod 4294967296) mod 65536 = Suc n mod 65536"
proof -
  have "Suc (n mod 4294967296) mod 65536 = Suc (n mod 4294967296) mod 4294967296 mod 65536"
    by (simp only: mod_mod_cancel[OF dvd16])
  also have "\<dots> = Suc n mod 4294967296 mod 65536"
    by (simp only: mod_Suc_eq)
  also have "\<dots> = Suc n mod 65536"
    by (simp only: mod_mod_cancel[OF dvd16])
  finally show ?thesis .
qed

lemma ucast_nth: "unat (ucast ((of_nat n :: uint32) + 1) :: uint16) = (n + 1) mod 65536"
  by (simp add: ucast_unat unat_word_ariths unat_of_nat mod_mod_cancel[OF dvd16] Suc_mod_mod)

lemma L1_packed:
  "packed (snd (snd (lookupResourceListL1 E g domain typeC))) =
     (case NewName E (if \<not> HasSuffix domain ''.'' then domain @ ''.'' else domain) of
        Inl err \<Rightarrow> []
      | Inr name \<Rightarrow> [query_msg (ucast (g + 1)) name typeC])"
  by (simp add: L1_unfold loop_packed split: sum.split)

lemma L1_counter:
  "fst (snd (lookupResourceListL1 E g domain typeC)) =
     (case NewName E (if \<not> HasSuffix domain ''.'' then domain @ ''.'' else domain) of
        Inl err \<Rightarrow> g
      | Inr name \<Rightarrow> g + 1)"
  by (simp add: L1_unfold split: sum.split)

text \<open>
  C10. The counter starts at zero. A call whose name is accepted adds one to the
  counter and puts the low 16 bits of the new value in the header of the one query it
  packs: the identifier is the new counter value modulo 65536, the first query of a
  process carries 1, counters 65536 apart give the same identifier, and after \<open>n\<close>
  earlier queries the identifier is \<open>(n + 1) mod 65536\<close>. A call whose name is
  rejected packs no query and leaves the counter as it was.
\<close>

theorem query_identifier:
  "gLookupId_init = 0
   \<and> (NewName E (if \<not> HasSuffix domain ''.'' then domain @ ''.'' else domain) = Inl err \<longrightarrow>
        packed (snd (snd (lookupResourceListL1 E g domain typeC))) = []
      \<and> fst (snd (lookupResourceListL1 E g domain typeC)) = g)
   \<and> (NewName E (if \<not> HasSuffix domain ''.'' then domain @ ''.'' else domain) = Inr name \<longrightarrow>
        map (\<lambda>m. ID (MsgHeader m)) (packed (snd (snd (lookupResourceListL1 E g domain typeC))))
          = [ucast (g + 1)]
      \<and> fst (snd (lookupResourceListL1 E g domain typeC)) = g + 1
      \<and> map (\<lambda>m. unat (ID (MsgHeader m)))
           (packed (snd (snd (lookupResourceListL1 E g domain typeC))))
          = [unat (g + 1) mod 65536]
      \<and> map (\<lambda>m. ID (MsgHeader m))
           (packed (snd (snd (lookupResourceListL1 E gLookupId_init domain typeC)))) = [1]
      \<and> map (\<lambda>m. ID (MsgHeader m))
           (packed (snd (snd (lookupResourceListL1 E (g + 65536) domain typeC))))
        = map (\<lambda>m. ID (MsgHeader m))
           (packed (snd (snd (lookupResourceListL1 E g domain typeC))))
      \<and> map (\<lambda>m. unat (ID (MsgHeader m)))
           (packed (snd (snd (lookupResourceListL1 E (gLookupId_init + of_nat n) domain typeC))))
          = [(n + 1) mod 65536])"
proof (intro conjI impI)
  show "gLookupId_init = 0" by (simp add: gLookupId_init_def)
next
  assume "NewName E (if \<not> HasSuffix domain ''.'' then domain @ ''.'' else domain) = Inl err"
  then show "packed (snd (snd (lookupResourceListL1 E g domain typeC))) = []"
    and "fst (snd (lookupResourceListL1 E g domain typeC)) = g"
    by (simp_all add: L1_packed L1_counter)
next
  assume n: "NewName E (if \<not> HasSuffix domain ''.'' then domain @ ''.'' else domain) = Inr name"
  have p: "\<And>g. packed (snd (snd (lookupResourceListL1 E g domain typeC)))
      = [query_msg (ucast (g + 1)) name typeC]"
    by (simp add: L1_packed n)
  show "map (\<lambda>m. ID (MsgHeader m)) (packed (snd (snd (lookupResourceListL1 E g domain typeC))))
          = [ucast (g + 1)]"
    by (simp add: p query_msg_def)
  show "fst (snd (lookupResourceListL1 E g domain typeC)) = g + 1"
    by (simp add: L1_counter n)
  show "map (\<lambda>m. unat (ID (MsgHeader m)))
           (packed (snd (snd (lookupResourceListL1 E g domain typeC))))
          = [unat (g + 1) mod 65536]"
    by (simp add: p query_msg_def ucast_unat)
  show "map (\<lambda>m. ID (MsgHeader m))
           (packed (snd (snd (lookupResourceListL1 E gLookupId_init domain typeC)))) = [1]"
    by (simp add: p query_msg_def gLookupId_init_def)
  show "map (\<lambda>m. ID (MsgHeader m))
           (packed (snd (snd (lookupResourceListL1 E (g + 65536) domain typeC))))
        = map (\<lambda>m. ID (MsgHeader m))
           (packed (snd (snd (lookupResourceListL1 E g domain typeC))))"
    using ucast_period[of "g + 1"] by (simp add: p query_msg_def add.commute add.left_commute)
  show "map (\<lambda>m. unat (ID (MsgHeader m)))
           (packed (snd (snd (lookupResourceListL1 E (gLookupId_init + of_nat n) domain typeC))))
          = [(n + 1) mod 65536]"
    using ucast_nth[of n] by (simp add: p query_msg_def gLookupId_init_def)
qed

theorem query_identifier_witness:
  "NewName (reply_env (reply_msg [rr (AResource 192 0 2 1)] []))
      (if \<not> HasSuffix ''example.com'' ''.'' then ''example.com'' @ ''.'' else ''example.com'')
     = Inr ''example.com.''
   \<and> map (\<lambda>m. ID (MsgHeader m))
        (packed (snd (snd (lookupResourceListL1 (reply_env (reply_msg [rr (AResource 192 0 2 1)] []))
           gLookupId_init ''example.com'' TypeA)))) = [1]
   \<and> map (\<lambda>m. unat (ID (MsgHeader m)))
        (packed (snd (snd (lookupResourceListL1 (reply_env (reply_msg [rr (AResource 192 0 2 1)] []))
           (gLookupId_init + of_nat 65535) ''example.com'' TypeA)))) = [(65535 + 1) mod 65536]
   \<and> (65535 + 1) mod 65536 = (0 :: nat)"
proof -
  let ?E = "reply_env (reply_msg [rr (AResource 192 0 2 1)] [])"
  have n: "NewName ?E (if \<not> HasSuffix ''example.com'' ''.'' then ''example.com'' @ ''.''
                       else ''example.com'') = Inr ''example.com.''"
    by (simp add: reply_env_def HasSuffix_def)
  from query_identifier[where E = ?E and domain = "''example.com''" and typeC = TypeA
      and name = "''example.com.''" and g = 0 and n = 65535 and err = ErrNotFound] n
  have "map (\<lambda>m. ID (MsgHeader m))
        (packed (snd (snd (lookupResourceListL1 ?E gLookupId_init ''example.com'' TypeA)))) = [1]
   \<and> map (\<lambda>m. unat (ID (MsgHeader m)))
        (packed (snd (snd (lookupResourceListL1 ?E
           (gLookupId_init + of_nat 65535) ''example.com'' TypeA)))) = [(65535 + 1) mod 65536]"
    by blast
  moreover have "(65535 + 1) mod 65536 = (0 :: nat)" by simp
  ultimately show ?thesis using n by blast
qed

lemma HasSuffix_dot: "HasSuffix (domain @ ''.'') ''.''"
  by (simp add: HasSuffix_def)

lemma loop_exchanges_send:
  "\<forall>x \<in> set (exchanges (snd (lookup_loop E send d sl))). snd x = send"
  using loop_exchanges_le[of E send d sl] by blast

text \<open>
  C9. A name without a trailing dot gets one before NewName sees it, so the dotted
  and the undotted spelling of a name make the same run from the same counter value:
  the same query message, the same bytes sent at every hop, the same result. The
  name handed to NewName always ends in a dot, and the bytes of every exchange are
  the packed query.
\<close>

theorem domain_normalization:
  "(\<not> HasSuffix domain ''.'' \<longrightarrow>
       lookupResourceListL1 E g (domain @ ''.'') typeC = lookupResourceListL1 E g domain typeC)
   \<and> lookupResourceListL1 E g ''example.com'' TypeA
       = lookupResourceListL1 E g ''example.com.'' TypeA
   \<and> (\<forall>m \<in> set (packed (snd (snd (lookupResourceListL1 E g domain typeC)))).
        \<exists>dotted name. HasSuffix dotted ''.'' \<and> (dotted = domain \<or> dotted = domain @ ''.'')
          \<and> NewName E dotted = Inr name
          \<and> m = query_msg (ucast (g + 1)) name typeC
          \<and> (\<forall>x \<in> set (exchanges (snd (snd (lookupResourceListL1 E g domain typeC)))).
                Pack E m = Inr (snd x)))"
proof (intro conjI impI ballI)
  assume "\<not> HasSuffix domain ''.''"
  then show "lookupResourceListL1 E g (domain @ ''.'') typeC = lookupResourceListL1 E g domain typeC"
    by (simp add: L1_unfold HasSuffix_dot)
next
  show "lookupResourceListL1 E g ''example.com'' TypeA
       = lookupResourceListL1 E g ''example.com.'' TypeA"
    by (simp add: L1_unfold HasSuffix_def)
next
  fix m
  let ?dotted = "if \<not> HasSuffix domain ''.'' then domain @ ''.'' else domain"
  assume m: "m \<in> set (packed (snd (snd (lookupResourceListL1 E g domain typeC))))"
  then obtain name where n: "NewName E ?dotted = Inr name"
    and mq: "m = query_msg (ucast (g + 1)) name typeC"
    by (cases "NewName E ?dotted") (simp_all add: L1_packed)
  have hs: "HasSuffix ?dotted ''.''" by (simp add: HasSuffix_dot)
  have ex: "\<forall>x \<in> set (exchanges (snd (snd (lookupResourceListL1 E g domain typeC)))).
                Pack E m = Inr (snd x)"
  proof (cases "Pack E m")
    case (Inl err)
    then show ?thesis using n mq by (simp add: L1_unfold)
  next
    case (Inr send)
    then show ?thesis using n mq loop_exchanges_send[of E send 0 gRootServers]
      by (simp add: L1_unfold)
  qed
  show "\<exists>dotted name. HasSuffix dotted ''.'' \<and> (dotted = domain \<or> dotted = domain @ ''.'')
          \<and> NewName E dotted = Inr name
          \<and> m = query_msg (ucast (g + 1)) name typeC
          \<and> (\<forall>x \<in> set (exchanges (snd (snd (lookupResourceListL1 E g domain typeC)))).
                Pack E m = Inr (snd x))"
    apply (rule exI[of _ ?dotted])
    apply (rule exI[of _ name])
    using hs n mq ex by auto
qed

theorem domain_normalization_witness:
  "\<not> HasSuffix ''example.org'' ''.''
   \<and> lookupResourceListL1 (reply_env (reply_msg [rr (AResource 192 0 2 1)] [])) 7
        (''example.org'' @ ''.'') TypeMX
     = lookupResourceListL1 (reply_env (reply_msg [rr (AResource 192 0 2 1)] [])) 7
        ''example.org'' TypeMX
   \<and> packed (snd (snd (lookupResourceListL1 (reply_env (reply_msg [rr (AResource 192 0 2 1)] [])) 7
        ''example.org'' TypeMX))) = [query_msg 8 ''example.org.'' TypeMX]"
proof -
  let ?E = "reply_env (reply_msg [rr (AResource 192 0 2 1)] [])"
  have h: "\<not> HasSuffix ''example.org'' ''.''" by (simp add: HasSuffix_def)
  have p: "packed (snd (snd (lookupResourceListL1 ?E 7 ''example.org'' TypeMX)))
      = [query_msg 8 ''example.org.'' TypeMX]"
    by (simp add: L1_reply_env_answers HasSuffix_def)
  from domain_normalization[of "''example.org''" ?E 7 TypeMX] h p
  show ?thesis by blast
qed

subsection \<open>The canonical name\<close>

lemma cname_targets_simps:
  "cname_targets [] = []"
  "cname_targets (r # rs) =
     (case Body r of CNAMEResource c \<Rightarrow> [c] | _ \<Rightarrow> []) @ cname_targets rs"
  by (simp_all add: cname_targets_def)

lemma cname_loop_eq:
  "cname_loop rs acc =
     (case filter (\<lambda>c. c \<noteq> []) (cname_targets rs) of
        [] \<Rightarrow> (if cname_targets rs = [] then acc else [])
      | c # _ \<Rightarrow> c)"
proof (induction rs arbitrary: acc)
  case Nil
  then show ?case by (simp add: cname_targets_simps)
next
  case (Cons r rs)
  show ?case
  proof (cases "Body r")
    case (CNAMEResource c)
    then show ?thesis using Cons[of c]
      by (auto simp: cname_targets_simps split: list.splits)
  qed (simp_all add: cname_targets_simps Cons)
qed

lemma LookupCNAME_eq:
  "LookupCNAME E g domain =
     (case lookupResourceListL1 E g domain TypeTXT of
        (Inl err, g', evs) \<Rightarrow> (Inl err, g', evs)
      | (Inr answers, g', evs) \<Rightarrow>
         (case filter (\<lambda>c. c \<noteq> []) (cname_targets answers) of
            [] \<Rightarrow> Inl ErrNotFound
          | c # _ \<Rightarrow> Inr c, g', evs))"
  by (auto simp: LookupCNAME_def cname_loop_eq Let_def split: prod.splits sum.splits list.splits
      dest: filter_eq_ConsD)

lemma LookupCNAME_events:
  "snd (snd (LookupCNAME E g domain)) = snd (snd (lookupResourceListL1 E g domain TypeTXT))"
  by (simp add: LookupCNAME_def Let_def split: prod.splits sum.splits)

lemma LookupCNAME_fst:
  assumes "fst (lookupResourceListL1 E g domain TypeTXT) = Inr answers"
  shows "fst (LookupCNAME E g domain) =
     (case filter (\<lambda>c. c \<noteq> []) (cname_targets answers) of
        [] \<Rightarrow> Inl ErrNotFound
      | c # _ \<Rightarrow> Inr c)"
proof -
  obtain g' evs where "lookupResourceListL1 E g domain TypeTXT = (Inr answers, g', evs)"
    using assms by (cases "lookupResourceListL1 E g domain TypeTXT") auto
  then show ?thesis by (simp add: LookupCNAME_eq)
qed

lemma L1_exchanges_packed:
  assumes "NewName E (if \<not> HasSuffix domain ''.'' then domain @ ''.'' else domain) = Inr name"
  shows "\<forall>x \<in> set (exchanges (snd (snd (lookupResourceListL1 E g domain typeC)))).
           Pack E (query_msg (ucast (g + 1)) name typeC) = Inr (snd x)"
proof (cases "Pack E (query_msg (ucast (g + 1)) name typeC)")
  case (Inl err)
  then show ?thesis using assms by (simp add: L1_unfold)
next
  case (Inr send)
  then show ?thesis using assms loop_exchanges_send[of E send 0 gRootServers]
    by (simp add: L1_unfold)
qed

text \<open>
  C5. Whenever the name is accepted, LookupCNAME packs exactly one query, and that
  query asks for type TXT; the bytes of every exchange are that packed query. On answers it returns the
  first non-empty canonical name among the CNAME records, as it stands in the record
  (no dot is trimmed), and ErrNotFound when there is none: in particular for the
  answers CNAME(""), CNAME("alias.example.com.") the result is "alias.example.com.",
  and for CNAME("") alone it is ErrNotFound.
\<close>

theorem LookupCNAME_first_nonempty:
  "(NewName E (if \<not> HasSuffix domain ''.'' then domain @ ''.'' else domain) = Inr name \<longrightarrow>
       packed (snd (snd (LookupCNAME E g domain))) = [query_msg (ucast (g + 1)) name TypeTXT]
     \<and> map QType (Questions (query_msg (ucast (g + 1)) name TypeTXT)) = [TypeTXT]
     \<and> (\<forall>x \<in> set (exchanges (snd (snd (LookupCNAME E g domain)))).
           Pack E (query_msg (ucast (g + 1)) name TypeTXT) = Inr (snd x)))
   \<and> (\<forall>m \<in> set (packed (snd (snd (LookupCNAME E g domain)))). map QType (Questions m) = [TypeTXT])
   \<and> LookupCNAME E g domain =
       (case lookupResourceListL1 E g domain TypeTXT of
          (Inl err, g', evs) \<Rightarrow> (Inl err, g', evs)
        | (Inr answers, g', evs) \<Rightarrow>
           (case filter (\<lambda>c. c \<noteq> []) (cname_targets answers) of
              [] \<Rightarrow> Inl ErrNotFound
            | c # _ \<Rightarrow> Inr c, g', evs))
   \<and> (fst (lookupResourceListL1 E g domain TypeTXT)
         = Inr [rr (CNAMEResource []), rr (CNAMEResource ''alias.example.com.'')] \<longrightarrow>
       fst (LookupCNAME E g domain) = Inr ''alias.example.com.'')
   \<and> (fst (lookupResourceListL1 E g domain TypeTXT) = Inr [rr (CNAMEResource [])] \<longrightarrow>
       fst (LookupCNAME E g domain) = Inl ErrNotFound)
   \<and> (fst (lookupResourceListL1 E g domain TypeTXT) = Inr answers \<longrightarrow>
       (\<forall>c \<in> set (cname_targets answers). c = []) \<longrightarrow>
       fst (LookupCNAME E g domain) = Inl ErrNotFound)
   \<and> (fst (lookupResourceListL1 E g domain TypeTXT) = Inr answers \<longrightarrow>
       cname_targets answers = pre @ c # post \<longrightarrow> (\<forall>x \<in> set pre. x = []) \<longrightarrow> c \<noteq> [] \<longrightarrow>
       fst (LookupCNAME E g domain) = Inr c)"
proof (intro conjI impI ballI)
  assume n: "NewName E (if \<not> HasSuffix domain ''.'' then domain @ ''.'' else domain) = Inr name"
  show "packed (snd (snd (LookupCNAME E g domain))) = [query_msg (ucast (g + 1)) name TypeTXT]"
    by (simp add: LookupCNAME_events L1_packed n)
  show "map QType (Questions (query_msg (ucast (g + 1)) name TypeTXT)) = [TypeTXT]"
    by (simp add: query_msg_def)
  fix x
  assume "x \<in> set (exchanges (snd (snd (LookupCNAME E g domain))))"
  then show "Pack E (query_msg (ucast (g + 1)) name TypeTXT) = Inr (snd x)"
    using L1_exchanges_packed[OF n, of g TypeTXT] by (simp add: LookupCNAME_events)
next
  fix m
  assume "m \<in> set (packed (snd (snd (LookupCNAME E g domain))))"
  then show "map QType (Questions m) = [TypeTXT]"
    by (auto simp: LookupCNAME_events L1_packed query_msg_def split: sum.splits)
next
  show "LookupCNAME E g domain =
       (case lookupResourceListL1 E g domain TypeTXT of
          (Inl err, g', evs) \<Rightarrow> (Inl err, g', evs)
        | (Inr answers, g', evs) \<Rightarrow>
           (case filter (\<lambda>c. c \<noteq> []) (cname_targets answers) of
              [] \<Rightarrow> Inl ErrNotFound
            | c # _ \<Rightarrow> Inr c, g', evs))"
    by (rule LookupCNAME_eq)
next
  assume "fst (lookupResourceListL1 E g domain TypeTXT)
         = Inr [rr (CNAMEResource []), rr (CNAMEResource ''alias.example.com.'')]"
  then show "fst (LookupCNAME E g domain) = Inr ''alias.example.com.''"
    by (simp add: LookupCNAME_fst cname_targets_simps rr_def)
next
  assume "fst (lookupResourceListL1 E g domain TypeTXT) = Inr [rr (CNAMEResource [])]"
  then show "fst (LookupCNAME E g domain) = Inl ErrNotFound"
    by (simp add: LookupCNAME_fst cname_targets_simps rr_def)
next
  assume "fst (lookupResourceListL1 E g domain TypeTXT) = Inr answers"
    and "\<forall>c \<in> set (cname_targets answers). c = []"
  moreover from this have "filter (\<lambda>c. c \<noteq> []) (cname_targets answers) = []"
    by (simp add: filter_empty_conv)
  ultimately show "fst (LookupCNAME E g domain) = Inl ErrNotFound"
    by (simp add: LookupCNAME_fst)
next
  assume "fst (lookupResourceListL1 E g domain TypeTXT) = Inr answers"
    and "cname_targets answers = pre @ c # post" and "\<forall>x \<in> set pre. x = []" and "c \<noteq> []"
  moreover from this have "filter (\<lambda>c. c \<noteq> []) (cname_targets answers)
      = c # filter (\<lambda>c. c \<noteq> []) post"
    by (simp add: filter_empty_conv)
  ultimately show "fst (LookupCNAME E g domain) = Inr c"
    by (simp add: LookupCNAME_fst)
qed

theorem LookupCNAME_first_nonempty_witness:
  "NewName (reply_env (reply_msg [rr (CNAMEResource []), rr (CNAMEResource ''alias.example.com.'')] []))
      (if \<not> HasSuffix ''www.example.com'' ''.'' then ''www.example.com'' @ ''.''
       else ''www.example.com'') = Inr ''www.example.com.''
   \<and> packed (snd (snd (LookupCNAME
          (reply_env (reply_msg [rr (CNAMEResource []), rr (CNAMEResource ''alias.example.com.'')] []))
          0 ''www.example.com''))) = [query_msg (ucast ((0 :: uint32) + 1)) ''www.example.com.'' TypeTXT]
   \<and> exchanges (snd (snd (LookupCNAME
          (reply_env (reply_msg [rr (CNAMEResource []), rr (CNAMEResource ''alias.example.com.'')] []))
          0 ''www.example.com''))) = [(0, [])]
   \<and> fst (lookupResourceListL1
          (reply_env (reply_msg [rr (CNAMEResource []), rr (CNAMEResource ''alias.example.com.'')] []))
          0 ''www.example.com'' TypeTXT)
     = Inr [rr (CNAMEResource []), rr (CNAMEResource ''alias.example.com.'')]
   \<and> fst (LookupCNAME
          (reply_env (reply_msg [rr (CNAMEResource []), rr (CNAMEResource ''alias.example.com.'')] []))
          0 ''www.example.com'') = Inr ''alias.example.com.''
   \<and> fst (lookupResourceListL1 (reply_env (reply_msg [rr (CNAMEResource [])] []))
          0 ''www.example.com'' TypeTXT) = Inr [rr (CNAMEResource [])]
   \<and> fst (LookupCNAME (reply_env (reply_msg [rr (CNAMEResource [])] []))
          0 ''www.example.com'') = Inl ErrNotFound"
proof -
  let ?a1 = "[rr (CNAMEResource []), rr (CNAMEResource ''alias.example.com.'')]"
  let ?a2 = "[rr (CNAMEResource [])]"
  have n: "NewName (reply_env (reply_msg ?a1 []))
      (if \<not> HasSuffix ''www.example.com'' ''.'' then ''www.example.com'' @ ''.''
       else ''www.example.com'') = Inr ''www.example.com.''"
    by (simp add: reply_env_def HasSuffix_def)
  have l1: "fst (lookupResourceListL1 (reply_env (reply_msg ?a1 [])) 0 ''www.example.com'' TypeTXT)
      = Inr ?a1"
    by (simp add: L1_reply_env_answers)
  have l2: "fst (lookupResourceListL1 (reply_env (reply_msg ?a2 [])) 0 ''www.example.com'' TypeTXT)
      = Inr ?a2"
    by (simp add: L1_reply_env_answers)
  have ex: "exchanges (snd (snd (LookupCNAME (reply_env (reply_msg ?a1 [])) 0 ''www.example.com'')))
      = [(0, [])]"
    by (simp add: LookupCNAME_events L1_reply_env_answers)
  note t1 = LookupCNAME_first_nonempty[where E = "reply_env (reply_msg ?a1 [])" and g = 0
      and domain = "''www.example.com''" and name = "''www.example.com.''"
      and answers = "[]" and pre = "[]" and c = "[]" and post = "[]"]
  from t1 n have pk: "packed (snd (snd (LookupCNAME (reply_env (reply_msg ?a1 [])) 0
      ''www.example.com''))) = [query_msg (ucast ((0 :: uint32) + 1)) ''www.example.com.'' TypeTXT]"
    by blast
  from t1 l1
  have r1: "fst (LookupCNAME (reply_env (reply_msg ?a1 [])) 0 ''www.example.com'')
      = Inr ''alias.example.com.''"
    by blast
  from LookupCNAME_first_nonempty[where E = "reply_env (reply_msg ?a2 [])" and g = 0
      and domain = "''www.example.com''" and name = "''www.example.com.''"
      and answers = "[]" and pre = "[]" and c = "[]" and post = "[]"] l2
  have r2: "fst (LookupCNAME (reply_env (reply_msg ?a2 [])) 0 ''www.example.com'')
      = Inl ErrNotFound"
    by blast
  show ?thesis
    by (intro conjI) (rule n pk ex l1 r1 l2 r2)+
qed

subsection \<open>The order of the MX records\<close>

lemma mx_before_iff: "mx_before a b \<longleftrightarrow> \<not> mx_less b a"
  by (auto simp: mx_before_def mx_less_def)

lemma mx_before_total: "mx_before a b \<or> mx_before b a"
  by (auto simp: mx_before_def)

lemma mx_before_trans: "mx_before a b \<Longrightarrow> mx_before b c \<Longrightarrow> mx_before a c"
  by (auto simp: mx_before_def)

lemma mx_before_antisym: "mx_before a b \<Longrightarrow> mx_before b a \<Longrightarrow> a = (b :: MX)"
  by (auto simp: mx_before_def)

lemma mset_insert_by: "mset (insert_by lt x xs) = add_mset x (mset xs)"
  by (induction xs) simp_all

lemma set_insert_by: "set (insert_by lt x xs) = insert x (set xs)"
  by (simp add: mset_insert_by flip: set_mset_mset)

lemma sorted_insert_by:
  "sorted_wrt mx_before xs \<Longrightarrow> sorted_wrt mx_before (insert_by mx_less x xs)"
proof (induction xs)
  case Nil
  then show ?case by simp
next
  case (Cons y ys)
  show ?case
  proof (cases "mx_less y x")
    case True
    then have "mx_before y x" using mx_before_iff mx_before_total by blast
    then show ?thesis using Cons True by (auto simp: set_insert_by)
  next
    case False
    then have xy: "mx_before x y" by (simp add: mx_before_iff)
    then have "\<forall>z \<in> set ys. mx_before x z" using Cons.prems mx_before_trans by auto
    then show ?thesis using Cons.prems False xy by simp
  qed
qed

lemma mset_sort_Slice: "mset (sort_Slice lt xs) = mset xs"
  by (induction xs) (simp_all add: sort_Slice_def mset_insert_by)

lemma sorted_sort_Slice: "sorted_wrt mx_before (sort_Slice mx_less xs)"
  by (induction xs) (simp_all add: sort_Slice_def sorted_insert_by)

lemma mx_sorted_unique:
  "sorted_wrt mx_before xs \<Longrightarrow> sorted_wrt mx_before ys \<Longrightarrow> mset xs = mset ys \<Longrightarrow> xs = ys"
proof (induction xs arbitrary: ys)
  case Nil
  then show ?case by simp
next
  case (Cons x xs)
  then obtain y ys' where ys: "ys = y # ys'" by (cases ys) auto
  have "x \<in> set ys" using Cons.prems(3) by (metis list.set_intros(1) set_mset_mset)
  then have yx: "mx_before y x" using Cons.prems(2) ys mx_before_total by auto
  have "y \<in> set (x # xs)" using Cons.prems(3) ys by (metis list.set_intros(1) set_mset_mset)
  then have xy: "mx_before x y" using Cons.prems(1) mx_before_total by auto
  have eq: "x = y" using xy yx by (rule mx_before_antisym)
  then have "mset xs = mset ys'" using Cons.prems(3) ys by simp
  then have "xs = ys'" using Cons.IH[of ys'] Cons.prems(1,2) ys by simp
  then show ?case using eq ys by simp
qed

lemma mx_pairs_simps:
  "mx_pairs [] = []"
  "mx_pairs (r # rs) =
     (case Body r of MXResource pref mx \<Rightarrow> [\<lparr>Host = mx, Pref = pref\<rparr>] | _ \<Rightarrow> []) @ mx_pairs rs"
  by (simp_all add: mx_pairs_def)

lemma mxResourceList_loop_eq: "mxResourceList_loop rs acc = acc @ mx_pairs rs"
proof (induction rs arbitrary: acc)
  case Nil
  then show ?case by (simp add: mx_pairs_simps)
next
  case (Cons r rs)
  then show ?case by (cases "Body r") (simp_all add: mx_pairs_simps)
qed

lemma LookupMX_fst:
  assumes "fst (lookupResourceListL1 E g domain TypeMX) = Inr answers"
  shows "fst (LookupMX E g domain) =
     (if mx_pairs answers = [] then Inl ErrNotFound
      else Inr (sort_Slice mx_less (mx_pairs answers)))"
proof -
  obtain g' evs where "lookupResourceListL1 E g domain TypeMX = (Inr answers, g', evs)"
    using assms by (cases "lookupResourceListL1 E g domain TypeMX") auto
  then show ?thesis by (simp add: LookupMX_def mxResourceList_loop_eq)
qed

text \<open>
  C4. On answers, LookupMX returns ErrNotFound when there is no MX record, and
  otherwise a list with exactly one (host, preference) pair for each MX record, in
  descending preference and, among equal preferences, ascending host: no element is
  less (by the function given to sort.Slice) than an earlier one. This list is the
  only arrangement of the pairs in that order, so it does not depend on how sort.Slice
  sorts. The records (a,10), (b,20), (c,20) give (b,20), (c,20), (a,10).
\<close>

theorem LookupMX_sorted:
  "(fst (lookupResourceListL1 E g domain TypeMX) = Inr answers \<longrightarrow>
      (mx_pairs answers = [] \<longrightarrow> fst (LookupMX E g domain) = Inl ErrNotFound)
    \<and> (mx_pairs answers \<noteq> [] \<longrightarrow>
         (\<exists>r. fst (LookupMX E g domain) = Inr r
            \<and> mset r = mset (mx_pairs answers)
            \<and> length r = length (mx_pairs answers)
            \<and> sorted_wrt mx_before r
            \<and> sorted_wrt (\<lambda>a b. \<not> mx_less b a) r
            \<and> (\<forall>ys. mset ys = mset (mx_pairs answers) \<longrightarrow> sorted_wrt mx_before ys \<longrightarrow> ys = r))))
   \<and> (fst (lookupResourceListL1 E g domain TypeMX)
         = Inr [rr (MXResource 10 ''a''), rr (MXResource 20 ''b''), rr (MXResource 20 ''c'')] \<longrightarrow>
       fst (LookupMX E g domain)
         = Inr [\<lparr>Host = ''b'', Pref = 20\<rparr>, \<lparr>Host = ''c'', Pref = 20\<rparr>, \<lparr>Host = ''a'', Pref = 10\<rparr>])"
proof (intro conjI impI)
  assume l: "fst (lookupResourceListL1 E g domain TypeMX) = Inr answers"
  {
    assume "mx_pairs answers = []"
    then show "fst (LookupMX E g domain) = Inl ErrNotFound"
      using LookupMX_fst[OF l] by simp
  }
  {
    let ?r = "sort_Slice mx_less (mx_pairs answers)"
    assume "mx_pairs answers \<noteq> []"
    then have r: "fst (LookupMX E g domain) = Inr ?r"
      using LookupMX_fst[OF l] by simp
    have m: "mset ?r = mset (mx_pairs answers)" by (rule mset_sort_Slice)
    then have len: "length ?r = length (mx_pairs answers)" by (metis size_mset)
    have so: "sorted_wrt mx_before ?r" by (rule sorted_sort_Slice)
    have "mx_before = (\<lambda>a b. \<not> mx_less b a)" by (intro ext) (rule mx_before_iff)
    then have so': "sorted_wrt (\<lambda>a b. \<not> mx_less b a) ?r" using so by simp
    have un: "\<forall>ys. mset ys = mset (mx_pairs answers) \<longrightarrow> sorted_wrt mx_before ys \<longrightarrow> ys = ?r"
      using mx_sorted_unique[OF _ so] m by simp
    show "\<exists>r. fst (LookupMX E g domain) = Inr r
            \<and> mset r = mset (mx_pairs answers)
            \<and> length r = length (mx_pairs answers)
            \<and> sorted_wrt mx_before r
            \<and> sorted_wrt (\<lambda>a b. \<not> mx_less b a) r
            \<and> (\<forall>ys. mset ys = mset (mx_pairs answers) \<longrightarrow> sorted_wrt mx_before ys \<longrightarrow> ys = r)"
      using r m len so so' un by blast
  }
next
  assume "fst (lookupResourceListL1 E g domain TypeMX)
         = Inr [rr (MXResource 10 ''a''), rr (MXResource 20 ''b''), rr (MXResource 20 ''c'')]"
  from LookupMX_fst[OF this]
  show "fst (LookupMX E g domain)
         = Inr [\<lparr>Host = ''b'', Pref = 20\<rparr>, \<lparr>Host = ''c'', Pref = 20\<rparr>, \<lparr>Host = ''a'', Pref = 10\<rparr>]"
    by (simp add: mx_pairs_simps rr_def sort_Slice_def mx_less_def less_char_def)
qed

theorem LookupMX_sorted_witness:
  "fst (lookupResourceListL1
          (reply_env (reply_msg
             [rr (MXResource 10 ''a''), rr (MXResource 20 ''b''), rr (MXResource 20 ''c'')] []))
          0 ''example.com'' TypeMX)
     = Inr [rr (MXResource 10 ''a''), rr (MXResource 20 ''b''), rr (MXResource 20 ''c'')]
   \<and> fst (LookupMX
          (reply_env (reply_msg
             [rr (MXResource 10 ''a''), rr (MXResource 20 ''b''), rr (MXResource 20 ''c'')] []))
          0 ''example.com'')
     = Inr [\<lparr>Host = ''b'', Pref = 20\<rparr>, \<lparr>Host = ''c'', Pref = 20\<rparr>, \<lparr>Host = ''a'', Pref = 10\<rparr>]"
proof -
  let ?a = "[rr (MXResource 10 ''a''), rr (MXResource 20 ''b''), rr (MXResource 20 ''c'')]"
  have l: "fst (lookupResourceListL1 (reply_env (reply_msg ?a [])) 0 ''example.com'' TypeMX)
      = Inr ?a"
    by (simp add: L1_reply_env_answers)
  from LookupMX_sorted[where E = "reply_env (reply_msg ?a [])" and g = 0
      and domain = "''example.com''" and answers = ?a] l
  show ?thesis by blast
qed

subsection \<open>No lookup returns an empty result\<close>

lemma sort_Slice_Nil_iff: "sort_Slice lt xs = [] \<longleftrightarrow> xs = []"
  using mset_sort_Slice[of lt xs] by (metis mset_zero_iff)

lemma LookupA_loop_fst:
  assumes "fst (lookupResourceListL1 E g domain TypeA) = Inr answers"
  shows "fst (LookupA E g domain) =
     (if aResourceList_loop answers [] = [] then Inl ErrNotFound else Inr (aResourceList_loop answers []))"
proof -
  obtain g' evs where "lookupResourceListL1 E g domain TypeA = (Inr answers, g', evs)"
    using assms by (cases "lookupResourceListL1 E g domain TypeA") auto
  then show ?thesis by (simp add: LookupA_def Let_def)
qed

lemma LookupA_err:
  assumes "fst (lookupResourceListL1 E g domain TypeA) = Inl err"
  shows "fst (LookupA E g domain) = Inl err"
proof -
  obtain g' evs where "lookupResourceListL1 E g domain TypeA = (Inl err, g', evs)"
    using assms by (cases "lookupResourceListL1 E g domain TypeA") auto
  then show ?thesis by (simp add: LookupA_def)
qed

lemma LookupA_nonempty: "fst (LookupA E g domain) = Inr r \<Longrightarrow> r \<noteq> []"
  by (cases "fst (lookupResourceListL1 E g domain TypeA)")
     (auto simp: LookupA_loop_fst LookupA_err sort_Slice_Nil_iff split: if_splits)

lemma aResourceList_loop_none:
  "\<forall>r \<in> set answers. \<forall>a0 a1 a2 a3. Body r \<noteq> AResource a0 a1 a2 a3 \<Longrightarrow> aResourceList_loop answers acc = acc"
proof (induction answers arbitrary: acc)
  case Nil
  then show ?case by simp
next
  case (Cons r rs)
  then show ?case by (cases "Body r") simp_all
qed

lemma LookupSOA_loop_fst:
  assumes "fst (lookupResourceListL1 E g domain TypeSOA) = Inr answers"
  shows "fst (LookupSOA E g domain) =
     (if soaResourceList_loop answers [] = [] then Inl ErrNotFound else Inr (soaResourceList_loop answers []))"
proof -
  obtain g' evs where "lookupResourceListL1 E g domain TypeSOA = (Inr answers, g', evs)"
    using assms by (cases "lookupResourceListL1 E g domain TypeSOA") auto
  then show ?thesis by (simp add: LookupSOA_def Let_def)
qed

lemma LookupSOA_err:
  assumes "fst (lookupResourceListL1 E g domain TypeSOA) = Inl err"
  shows "fst (LookupSOA E g domain) = Inl err"
proof -
  obtain g' evs where "lookupResourceListL1 E g domain TypeSOA = (Inl err, g', evs)"
    using assms by (cases "lookupResourceListL1 E g domain TypeSOA") auto
  then show ?thesis by (simp add: LookupSOA_def)
qed

lemma LookupSOA_nonempty: "fst (LookupSOA E g domain) = Inr r \<Longrightarrow> r \<noteq> []"
  by (cases "fst (lookupResourceListL1 E g domain TypeSOA)")
     (auto simp: LookupSOA_loop_fst LookupSOA_err sort_Slice_Nil_iff split: if_splits)

lemma soaResourceList_loop_none:
  "\<forall>r \<in> set answers. \<forall>ns. Body r \<noteq> SOAResource ns \<Longrightarrow> soaResourceList_loop answers acc = acc"
proof (induction answers arbitrary: acc)
  case Nil
  then show ?case by simp
next
  case (Cons r rs)
  then show ?case by (cases "Body r") simp_all
qed

lemma LookupNS_loop_fst:
  assumes "fst (lookupResourceListL1 E g domain TypeNS) = Inr answers"
  shows "fst (LookupNS E g domain) =
     (if nsResourceList_loop answers [] = [] then Inl ErrNotFound else Inr (nsResourceList_loop answers []))"
proof -
  obtain g' evs where "lookupResourceListL1 E g domain TypeNS = (Inr answers, g', evs)"
    using assms by (cases "lookupResourceListL1 E g domain TypeNS") auto
  then show ?thesis by (simp add: LookupNS_def Let_def)
qed

lemma LookupNS_err:
  assumes "fst (lookupResourceListL1 E g domain TypeNS) = Inl err"
  shows "fst (LookupNS E g domain) = Inl err"
proof -
  obtain g' evs where "lookupResourceListL1 E g domain TypeNS = (Inl err, g', evs)"
    using assms by (cases "lookupResourceListL1 E g domain TypeNS") auto
  then show ?thesis by (simp add: LookupNS_def)
qed

lemma LookupNS_nonempty: "fst (LookupNS E g domain) = Inr r \<Longrightarrow> r \<noteq> []"
  by (cases "fst (lookupResourceListL1 E g domain TypeNS)")
     (auto simp: LookupNS_loop_fst LookupNS_err sort_Slice_Nil_iff split: if_splits)

lemma nsResourceList_loop_none:
  "\<forall>r \<in> set answers. \<forall>ns. Body r \<noteq> NSResource ns \<Longrightarrow> nsResourceList_loop answers acc = acc"
proof (induction answers arbitrary: acc)
  case Nil
  then show ?case by simp
next
  case (Cons r rs)
  then show ?case by (cases "Body r") simp_all
qed

lemma LookupTXT_loop_fst:
  assumes "fst (lookupResourceListL1 E g domain TypeTXT) = Inr answers"
  shows "fst (LookupTXT E g domain) =
     (if txtResourceList_loop answers [] = [] then Inl ErrNotFound else Inr (txtResourceList_loop answers []))"
proof -
  obtain g' evs where "lookupResourceListL1 E g domain TypeTXT = (Inr answers, g', evs)"
    using assms by (cases "lookupResourceListL1 E g domain TypeTXT") auto
  then show ?thesis by (simp add: LookupTXT_def Let_def)
qed

lemma LookupTXT_err:
  assumes "fst (lookupResourceListL1 E g domain TypeTXT) = Inl err"
  shows "fst (LookupTXT E g domain) = Inl err"
proof -
  obtain g' evs where "lookupResourceListL1 E g domain TypeTXT = (Inl err, g', evs)"
    using assms by (cases "lookupResourceListL1 E g domain TypeTXT") auto
  then show ?thesis by (simp add: LookupTXT_def)
qed

lemma LookupTXT_nonempty: "fst (LookupTXT E g domain) = Inr r \<Longrightarrow> r \<noteq> []"
  by (cases "fst (lookupResourceListL1 E g domain TypeTXT)")
     (auto simp: LookupTXT_loop_fst LookupTXT_err sort_Slice_Nil_iff split: if_splits)

lemma txtResourceList_loop_none:
  "\<forall>r \<in> set answers. \<forall>txt. Body r \<noteq> TXTResource txt \<Longrightarrow> txtResourceList_loop answers acc = acc"
proof (induction answers arbitrary: acc)
  case Nil
  then show ?case by simp
next
  case (Cons r rs)
  then show ?case by (cases "Body r") simp_all
qed

lemma LookupCNAME_loop_fst:
  assumes "fst (lookupResourceListL1 E g domain TypeTXT) = Inr answers"
  shows "fst (LookupCNAME E g domain) =
     (if cname_loop answers [] = [] then Inl ErrNotFound else Inr (cname_loop answers []))"
proof -
  obtain g' evs where "lookupResourceListL1 E g domain TypeTXT = (Inr answers, g', evs)"
    using assms by (cases "lookupResourceListL1 E g domain TypeTXT") auto
  then show ?thesis by (simp add: LookupCNAME_def Let_def)
qed

lemma LookupCNAME_err:
  assumes "fst (lookupResourceListL1 E g domain TypeTXT) = Inl err"
  shows "fst (LookupCNAME E g domain) = Inl err"
proof -
  obtain g' evs where "lookupResourceListL1 E g domain TypeTXT = (Inl err, g', evs)"
    using assms by (cases "lookupResourceListL1 E g domain TypeTXT") auto
  then show ?thesis by (simp add: LookupCNAME_def)
qed

lemma LookupCNAME_nonempty: "fst (LookupCNAME E g domain) = Inr r \<Longrightarrow> r \<noteq> []"
  by (cases "fst (lookupResourceListL1 E g domain TypeTXT)")
     (auto simp: LookupCNAME_loop_fst LookupCNAME_err sort_Slice_Nil_iff split: if_splits)

lemma cname_loop_none:
  "\<forall>r \<in> set answers. \<forall>cn. Body r \<noteq> CNAMEResource cn \<Longrightarrow> cname_loop answers acc = acc"
proof (induction answers arbitrary: acc)
  case Nil
  then show ?case by simp
next
  case (Cons r rs)
  then show ?case by (cases "Body r") simp_all
qed

lemma LookupMX_loop_fst:
  assumes "fst (lookupResourceListL1 E g domain TypeMX) = Inr answers"
  shows "fst (LookupMX E g domain) =
     (if mxResourceList_loop answers [] = [] then Inl ErrNotFound else Inr (sort_Slice mx_less (mxResourceList_loop answers [])))"
proof -
  obtain g' evs where "lookupResourceListL1 E g domain TypeMX = (Inr answers, g', evs)"
    using assms by (cases "lookupResourceListL1 E g domain TypeMX") auto
  then show ?thesis by (simp add: LookupMX_def Let_def)
qed

lemma LookupMX_err:
  assumes "fst (lookupResourceListL1 E g domain TypeMX) = Inl err"
  shows "fst (LookupMX E g domain) = Inl err"
proof -
  obtain g' evs where "lookupResourceListL1 E g domain TypeMX = (Inl err, g', evs)"
    using assms by (cases "lookupResourceListL1 E g domain TypeMX") auto
  then show ?thesis by (simp add: LookupMX_def)
qed

lemma LookupMX_nonempty: "fst (LookupMX E g domain) = Inr r \<Longrightarrow> r \<noteq> []"
  by (cases "fst (lookupResourceListL1 E g domain TypeMX)")
     (auto simp: LookupMX_loop_fst LookupMX_err sort_Slice_Nil_iff split: if_splits)

lemma mxResourceList_loop_none:
  "\<forall>r \<in> set answers. \<forall>pref mx. Body r \<noteq> MXResource pref mx \<Longrightarrow> mxResourceList_loop answers acc = acc"
proof (induction answers arbitrary: acc)
  case Nil
  then show ?case by simp
next
  case (Cons r rs)
  then show ?case by (cases "Body r") simp_all
qed

lemma a_ex: "aResourceList_loop [rr (AResource 192 0 2 1)] [] = [''192.0.2.1'']"
  by code_simp

text \<open>
  C3. For each of LookupA, LookupSOA, LookupNS, LookupTXT, LookupCNAME and LookupMX:
  a result returned without error is not empty (for LookupCNAME, not the empty
  string); when the engine returns answers from which the lookup collects nothing,
  the lookup returns ErrNotFound; and it collects nothing when no answer has a body
  of the type it looks for.
\<close>

theorem lookups_never_empty:
  "(fst (LookupA E g domain) = Inr rA \<longrightarrow> rA \<noteq> [])
   \<and> (fst (lookupResourceListL1 E g domain TypeA) = Inr answers \<longrightarrow>
         aResourceList_loop answers [] = [] \<longrightarrow> fst (LookupA E g domain) = Inl ErrNotFound)
   \<and> ((\<forall>r \<in> set answers. \<forall>a0 a1 a2 a3. Body r \<noteq> AResource a0 a1 a2 a3) \<longrightarrow>
         aResourceList_loop answers [] = [])
   \<and> (fst (LookupSOA E g domain) = Inr rSOA \<longrightarrow> rSOA \<noteq> [])
   \<and> (fst (lookupResourceListL1 E g domain TypeSOA) = Inr answers \<longrightarrow>
         soaResourceList_loop answers [] = [] \<longrightarrow> fst (LookupSOA E g domain) = Inl ErrNotFound)
   \<and> ((\<forall>r \<in> set answers. \<forall>ns. Body r \<noteq> SOAResource ns) \<longrightarrow>
         soaResourceList_loop answers [] = [])
   \<and> (fst (LookupNS E g domain) = Inr rNS \<longrightarrow> rNS \<noteq> [])
   \<and> (fst (lookupResourceListL1 E g domain TypeNS) = Inr answers \<longrightarrow>
         nsResourceList_loop answers [] = [] \<longrightarrow> fst (LookupNS E g domain) = Inl ErrNotFound)
   \<and> ((\<forall>r \<in> set answers. \<forall>ns. Body r \<noteq> NSResource ns) \<longrightarrow>
         nsResourceList_loop answers [] = [])
   \<and> (fst (LookupTXT E g domain) = Inr rTXT \<longrightarrow> rTXT \<noteq> [])
   \<and> (fst (lookupResourceListL1 E g domain TypeTXT) = Inr answers \<longrightarrow>
         txtResourceList_loop answers [] = [] \<longrightarrow> fst (LookupTXT E g domain) = Inl ErrNotFound)
   \<and> ((\<forall>r \<in> set answers. \<forall>txt. Body r \<noteq> TXTResource txt) \<longrightarrow>
         txtResourceList_loop answers [] = [])
   \<and> (fst (LookupCNAME E g domain) = Inr rCNAME \<longrightarrow> rCNAME \<noteq> [])
   \<and> (fst (lookupResourceListL1 E g domain TypeTXT) = Inr answers \<longrightarrow>
         cname_loop answers [] = [] \<longrightarrow> fst (LookupCNAME E g domain) = Inl ErrNotFound)
   \<and> ((\<forall>r \<in> set answers. \<forall>cn. Body r \<noteq> CNAMEResource cn) \<longrightarrow>
         cname_loop answers [] = [])
   \<and> (fst (LookupMX E g domain) = Inr rMX \<longrightarrow> rMX \<noteq> [])
   \<and> (fst (lookupResourceListL1 E g domain TypeMX) = Inr answers \<longrightarrow>
         mxResourceList_loop answers [] = [] \<longrightarrow> fst (LookupMX E g domain) = Inl ErrNotFound)
   \<and> ((\<forall>r \<in> set answers. \<forall>pref mx. Body r \<noteq> MXResource pref mx) \<longrightarrow>
         mxResourceList_loop answers [] = [])"
  by (intro conjI allI impI)
     (simp_all add: LookupA_nonempty LookupSOA_nonempty LookupNS_nonempty LookupTXT_nonempty
        LookupCNAME_nonempty LookupMX_nonempty
        LookupA_loop_fst LookupSOA_loop_fst LookupNS_loop_fst LookupTXT_loop_fst
        LookupCNAME_loop_fst LookupMX_loop_fst
        aResourceList_loop_none soaResourceList_loop_none nsResourceList_loop_none
        txtResourceList_loop_none cname_loop_none mxResourceList_loop_none)

theorem lookups_never_empty_witness:
  "fst (lookupResourceListL1 (reply_env (reply_msg [rr (CNAMEResource ''x.example.'')] []))
          0 ''example.com'' TypeA) = Inr [rr (CNAMEResource ''x.example.'')]
   \<and> aResourceList_loop [rr (CNAMEResource ''x.example.'')] [] = []
   \<and> fst (LookupA (reply_env (reply_msg [rr (CNAMEResource ''x.example.'')] []))
          0 ''example.com'') = Inl ErrNotFound
   \<and> fst (lookupResourceListL1 (reply_env (reply_msg [rr (CNAMEResource ''x.example.'')] []))
          0 ''example.com'' TypeMX) = Inr [rr (CNAMEResource ''x.example.'')]
   \<and> mxResourceList_loop [rr (CNAMEResource ''x.example.'')] [] = []
   \<and> fst (LookupMX (reply_env (reply_msg [rr (CNAMEResource ''x.example.'')] []))
          0 ''example.com'') = Inl ErrNotFound
   \<and> fst (LookupA (reply_env (reply_msg [rr (AResource 192 0 2 1)] []))
          0 ''example.com'') = Inr [''192.0.2.1'']
   \<and> [''192.0.2.1''] \<noteq> []"
proof -
  let ?no = "[rr (CNAMEResource ''x.example.'')]"
  let ?E = "reply_env (reply_msg ?no [])"
  let ?ok = "[rr (AResource 192 0 2 1)]"
  let ?E' = "reply_env (reply_msg ?ok [])"
  have l: "\<And>t. fst (lookupResourceListL1 ?E 0 ''example.com'' t) = Inr ?no"
    by (simp add: L1_reply_env_answers)
  have la: "aResourceList_loop ?no [] = []" by (simp add: rr_def)
  have lm: "mxResourceList_loop ?no [] = []" by (simp add: rr_def)
  note t = lookups_never_empty[where E = ?E and g = 0 and domain = "''example.com''"
      and answers = ?no and rA = "[]" and rSOA = "[]" and rNS = "[]" and rTXT = "[]"
      and rCNAME = "[]" and rMX = "[]"]
  have "fst (lookupResourceListL1 ?E 0 ''example.com'' TypeA) = Inr ?no \<longrightarrow>
      aResourceList_loop ?no [] = [] \<longrightarrow> fst (LookupA ?E 0 ''example.com'') = Inl ErrNotFound"
    using t by (elim conjE)
  then have ra: "fst (LookupA ?E 0 ''example.com'') = Inl ErrNotFound"
    using l[of TypeA] la by (elim impE)
  have "fst (lookupResourceListL1 ?E 0 ''example.com'' TypeMX) = Inr ?no \<longrightarrow>
      mxResourceList_loop ?no [] = [] \<longrightarrow> fst (LookupMX ?E 0 ''example.com'') = Inl ErrNotFound"
    using t by (elim conjE)
  then have rm: "fst (LookupMX ?E 0 ''example.com'') = Inl ErrNotFound"
    using l[of TypeMX] lm by (elim impE)
  have l': "fst (lookupResourceListL1 ?E' 0 ''example.com'' TypeA) = Inr ?ok"
    by (simp add: L1_reply_env_answers)
  have ok: "fst (LookupA ?E' 0 ''example.com'') = Inr [''192.0.2.1'']"
    using LookupA_loop_fst[OF l'] unfolding a_ex by simp
  note t' = lookups_never_empty[where E = ?E' and g = 0 and domain = "''example.com''"
      and answers = ?ok and rA = "[''192.0.2.1'']" and rSOA = "[]" and rNS = "[]" and rTXT = "[]"
      and rCNAME = "[]" and rMX = "[]"]
  have "fst (LookupA ?E' 0 ''example.com'') = Inr [''192.0.2.1''] \<longrightarrow> [''192.0.2.1''] \<noteq> []"
    using t' by (elim conjE)
  then have ne: "[''192.0.2.1''] \<noteq> []"
    using ok by (elim impE)
  show ?thesis
    by (intro conjI) (rule l la ra lm rm ok ne)+
qed

end
